theory Spec2Isabelle
  imports
    Complex_Main
    "HOL-Library.Product_Lexorder"
    "HOL-Library.List_Lexorder"
    "HOL-Library.Char_ord"
    "HOL-Library.Sublist"
    "HOL-Library.AList"
begin

section \<open>Numbers, errors\<close>

text \<open>
  Python's floats are modelled as real numbers with exact arithmetic, and Python's
  \<^verbatim>\<open>round(x, n)\<close> as rounding to \<open>n\<close> decimals with ties going to the even
  neighbour. Strings are compared as Python compares them, character by character.
  A raised exception is the left injection of a sum.
\<close>

datatype error = ValueError string | KeyError string | IndexError string

definition round_half_even :: "real \<Rightarrow> int" where
  "round_half_even y =
     (let f = \<lfloor>y\<rfloor>; d = y - of_int f
      in if d < 1/2 then f else if d > 1/2 then f + 1 else if even f then f else f + 1)"

definition py_round :: "real \<Rightarrow> nat \<Rightarrow> real" where
  "py_round x n = of_int (round_half_even (x * 10 ^ n)) / 10 ^ n"

section \<open>mini/edl.py\<close>

definition DEFAULT_WEIGHTS :: "(string \<times> real) list" where
  "DEFAULT_WEIGHTS =
     [(''audio_peak'', 0.40), (''motion'', 0.30), (''faces'', 0.20),
      (''scene_novelty'', 0.08), (''brightness_flash'', 0.02)]"

definition VALID_DELIVERABLES :: "string list" where
  "VALID_DELIVERABLES = [''9:16'', ''1:1'', ''16:9'']"

record DiversitySettings =
  min_gap_same_cam :: real
  max_per_cam_ratio :: real

record BrandingSettings =
  logo_path :: "string option"
  logo_corner :: string
  logo_size_px :: int
  safe_area :: real
  intro_path :: "string option"
  outro_path :: "string option"
  lut_path :: "string option"
  fonts :: "string list"

text \<open>A dict is an association list in insertion order.\<close>

record Config =
  project :: string
  variant :: string
  seed :: int
  max_duration :: real
  clip_min :: real
  clip_max :: real
  target_range :: "real list"
  weights :: "(string \<times> real) list"
  diversity :: DiversitySettings
  branding :: BrandingSettings
  deliverables :: "string list"

definition validate_weights :: "(string \<times> real) list \<Rightarrow> error + unit" where
  "validate_weights w =
     (let total = sum_list (map snd w) in
      if w = [] then Inl (ValueError ''weights cannot be empty'')
      else if \<not> \<bar>total - 1\<bar> < 1 / 10 ^ 6 then Inl (ValueError ''weights must sum to 1.0'')
      else if filter (\<lambda>k. k \<notin> set (map fst DEFAULT_WEIGHTS)) (map fst w) \<noteq> []
        then Inl (ValueError ''Unsupported weight keys'')
      else Inr ())"

definition validate :: "Config \<Rightarrow> error + unit" where
  "validate c =
     (case validate_weights (weights c) of
        Inl e \<Rightarrow> Inl e
      | Inr _ \<Rightarrow>
          if clip_min c \<le> 0 \<or> clip_max c \<le> 0
            then Inl (ValueError ''clip_min and clip_max must be positive'')
          else if clip_min c > clip_max c
            then Inl (ValueError ''clip_min cannot exceed clip_max'')
          else if length (target_range c) \<noteq> 2 \<or> target_range c ! 0 > target_range c ! 1
            then Inl (ValueError ''target_range must be a [min, max] pair with min<=max'')
          else if \<not> (0 < max_per_cam_ratio (diversity c) \<and> max_per_cam_ratio (diversity c) \<le> 1)
            then Inl (ValueError ''max_per_cam_ratio must be within (0,1]'')
          else if safe_area (branding c) \<le> 0 \<or> safe_area (branding c) > 1
            then Inl (ValueError ''branding.safe_area must be in (0,1]'')
          else if filter (\<lambda>d. d \<notin> set VALID_DELIVERABLES) (deliverables c) \<noteq> []
            then Inl (ValueError ''Unsupported deliverable ratios'')
          else Inr ())"

text \<open>
  \<open>Segment\<close> and \<open>CandidateClip\<close> have the same field names in the source; the fields
  carry a prefix here because a record's fields are constants of the theory.
\<close>

record Segment =
  seg_src :: string
  seg_start :: real
  seg_end :: real
  seg_score :: real
  seg_tags :: "string list"
  seg_camera :: "string option"

definition Segment_duration :: "Segment \<Rightarrow> real" where
  "Segment_duration s = max 0 (seg_end s - seg_start s)"

datatype meta_value = FloatList "real list" | StrList "string list"

record EDL =
  edl_project :: string
  edl_variant :: string
  edl_seed :: int
  edl_max_duration :: real
  edl_clip_min :: real
  edl_clip_max :: real
  segments :: "Segment list"
  metadata :: "(string \<times> meta_value) list"

definition total_duration :: "EDL \<Rightarrow> real" where
  "total_duration e = sum_list (map Segment_duration (segments e))"

text \<open>
  The serialised form: a dict whose keys may be absent (\<open>None\<close>). For \<open>cam\<close> an
  absent key and a null value read alike (\<^verbatim>\<open>seg.get("cam")\<close>).
\<close>

record seg_dict =
  d_src :: "string option"
  d_in :: "real option"
  d_start :: "real option"
  d_out :: "real option"
  d_end :: "real option"
  d_score :: "real option"
  d_tags :: "string list option"
  d_cam :: "string option"

record edl_dict =
  d_project :: "string option"
  d_variant :: "string option"
  d_seed :: "int option"
  d_max_duration :: "real option"
  d_clip_min :: "real option"
  d_clip_max :: "real option"
  d_segments :: "seg_dict list option"
  d_metadata :: "(string \<times> meta_value) list option"

definition seg_to_dict :: "Segment \<Rightarrow> seg_dict" where
  "seg_to_dict s =
     \<lparr> d_src = Some (seg_src s),
       d_in = Some (py_round (seg_start s) 3),
       d_start = None,
       d_out = Some (py_round (seg_end s) 3),
       d_end = None,
       d_score = Some (py_round (seg_score s) 4),
       d_tags = Some (seg_tags s),
       d_cam = seg_camera s \<rparr>"

definition to_dict :: "EDL \<Rightarrow> edl_dict" where
  "to_dict e =
     \<lparr> d_project = Some (edl_project e),
       d_variant = Some (edl_variant e),
       d_seed = Some (edl_seed e),
       d_max_duration = Some (edl_max_duration e),
       d_clip_min = Some (edl_clip_min e),
       d_clip_max = Some (edl_clip_max e),
       d_segments = Some (map seg_to_dict (segments e)),
       d_metadata = (if metadata e \<noteq> [] then Some (metadata e) else None) \<rparr>"

definition get_or :: "'a option \<Rightarrow> 'a \<Rightarrow> 'a" where
  "get_or v dflt = (case v of Some x \<Rightarrow> x | None \<Rightarrow> dflt)"

definition seg_from_dict :: "seg_dict \<Rightarrow> error + Segment" where
  "seg_from_dict d =
     (case d_src d of
        None \<Rightarrow> Inl (KeyError ''src'')
      | Some s \<Rightarrow>
          Inr \<lparr> seg_src = s,
                seg_start = get_or (d_in d) (get_or (d_start d) 0),
                seg_end = get_or (d_out d) (get_or (d_end d) 0),
                seg_score = get_or (d_score d) 0,
                seg_tags = get_or (d_tags d) [],
                seg_camera = d_cam d \<rparr>)"

fun segs_from_dicts :: "seg_dict list \<Rightarrow> error + Segment list" where
  "segs_from_dicts [] = Inr []"
| "segs_from_dicts (d # ds) =
     (case seg_from_dict d of
        Inl e \<Rightarrow> Inl e
      | Inr s \<Rightarrow> (case segs_from_dicts ds of Inl e \<Rightarrow> Inl e | Inr ss \<Rightarrow> Inr (s # ss)))"

definition edl_from_dict :: "edl_dict \<Rightarrow> error + EDL" where
  "edl_from_dict d =
     (case segs_from_dicts (get_or (d_segments d) []) of
        Inl e \<Rightarrow> Inl e
      | Inr ss \<Rightarrow>
          Inr \<lparr> edl_project = get_or (d_project d) ''Event_Recap'',
                edl_variant = get_or (d_variant d) ''deterministic'',
                edl_seed = get_or (d_seed d) 42,
                edl_max_duration = get_or (d_max_duration d) 60,
                edl_clip_min = get_or (d_clip_min d) 1.2,
                edl_clip_max = get_or (d_clip_max d) 4,
                segments = ss,
                metadata = get_or (d_metadata d) [] \<rparr>)"

section \<open>mini/analysis/types.py\<close>

record DetectionEvent =
  ev_time :: real
  ev_score :: real
  ev_tag :: string

record CandidateClip =
  cand_src :: string
  cand_start :: real
  cand_end :: real
  cand_score :: real
  cand_tags :: "string set"
  cand_camera :: "string option"

definition CandidateClip_duration :: "CandidateClip \<Rightarrow> real" where
  "CandidateClip_duration c = max 0 (cand_end c - cand_start c)"

section \<open>mini/selection/select.py\<close>

text \<open>
  \<^verbatim>\<open>random.Random(seed)\<close> is the library's generator: it is a parameter of the model, a
  function from the seed to the stream of values that successive calls of
  \<^verbatim>\<open>rng.random()\<close> return (the \<open>k\<close>-th call returns \<open>Random seed k\<close>).
\<close>

text \<open>Lines 107 to 110: one draw per candidate, in the order of the first sort.\<close>

definition jittered :: "CandidateClip list \<Rightarrow> (nat \<Rightarrow> real) \<Rightarrow> (real \<times> CandidateClip) list" where
  "jittered ordered rng =
     map (\<lambda>(k, cand). (cand_score cand + rng k * (1 / 10 ^ 6), cand)) (enumerate 0 ordered)"

definition order_candidates :: "CandidateClip list \<Rightarrow> (nat \<Rightarrow> real) \<Rightarrow> CandidateClip list" where
  "order_candidates candidates rng =
     (let ordered = sort_key (\<lambda>c. (- cand_score c, cand_src c, cand_start c, cand_end c)) candidates;
          jittered' = sort_key (\<lambda>item. (- fst item, cand_src (snd item), cand_start (snd item)))
                        (jittered ordered rng)
      in map snd jittered')"

fun passes_overlap_check :: "CandidateClip \<Rightarrow> Segment list \<Rightarrow> real \<Rightarrow> bool" where
  "passes_overlap_check cand [] tolerance = True"
| "passes_overlap_check cand (seg # rest) tolerance =
     (if seg_src seg \<noteq> cand_src cand then passes_overlap_check cand rest tolerance
      else if min (seg_end seg) (cand_end cand) - max (seg_start seg) (cand_start cand) > tolerance
        then False
      else passes_overlap_check cand rest tolerance)"

definition empty_edl :: "Config \<Rightarrow> EDL" where
  "empty_edl config =
     \<lparr> edl_project = project config,
       edl_variant = variant config,
       edl_seed = seed config,
       edl_max_duration = max_duration config,
       edl_clip_min = clip_min config,
       edl_clip_max = clip_max config,
       segments = [],
       metadata = [(''target_range'', FloatList (target_range config)),
                   (''deliverables'', StrList (deliverables config))] \<rparr>"

text \<open>
  The variables of the selection loop. \<open>camera_usage\<close> is a \<^verbatim>\<open>defaultdict(float)\<close>:
  a total function that is 0 where nothing was stored.
\<close>

record sel_state =
  selected :: "Segment list"
  run_total :: real
  camera_usage :: "string \<Rightarrow> real"
  last_camera_time :: "string \<Rightarrow> real option"

datatype 'a loop_result = Continue 'a | Break 'a

definition camera_label :: "CandidateClip \<Rightarrow> string" where
  "camera_label cand =
     (case cand_camera cand of None \<Rightarrow> ''unknown'' | Some c \<Rightarrow> if c = [] then ''unknown'' else c)"

text \<open>Lines 64 to 71: the segment of an accepted candidate, with the end it was given.\<close>

definition make_segment :: "CandidateClip \<Rightarrow> string \<Rightarrow> real \<Rightarrow> Segment" where
  "make_segment cand camera cand_end' =
     \<lparr> seg_src = cand_src cand,
       seg_start = py_round (cand_start cand) 3,
       seg_end = py_round cand_end' 3,
       seg_score = cand_score cand,
       seg_tags = sorted_list_of_set (cand_tags cand),
       seg_camera = Some camera \<rparr>"

text \<open>Lines 73 to 76: the segment is appended and accounted for.\<close>

definition accept_segment :: "sel_state \<Rightarrow> string \<Rightarrow> Segment \<Rightarrow> sel_state" where
  "accept_segment st camera segment =
     \<lparr> selected = selected st @ [segment],
       run_total = run_total st + Segment_duration segment,
       camera_usage = (camera_usage st)
         (camera := camera_usage st camera + Segment_duration segment),
       last_camera_time = (last_camera_time st)(camera := Some (seg_start segment)) \<rparr>"

text \<open>One iteration of the loop over the ordered candidates (lines 38 to 79).\<close>

definition select_step :: "Config \<Rightarrow> sel_state \<Rightarrow> CandidateClip \<Rightarrow> sel_state loop_result" where
  "select_step config st cand =
     (let duration = CandidateClip_duration cand;
          camera = camera_label cand;
          max_camera_share = max_per_cam_ratio (diversity config) * max_duration config;
          remaining = max_duration config - run_total st
      in
      if duration < clip_min config \<or> duration > clip_max config then Continue st
      else if \<not> passes_overlap_check cand (selected st) (1/4) then Continue st
      else if camera_usage st camera + duration > max_camera_share + 1 / 10 ^ 6 then Continue st
      else if (case last_camera_time st camera of
                 None \<Rightarrow> False
               | Some last_time \<Rightarrow>
                   \<bar>cand_start cand - last_time\<bar> < min_gap_same_cam (diversity config))
        then Continue st
      else if run_total st + duration > max_duration config \<and> remaining < clip_min config
        then Break st
      else
        let cand_end' =
              (if run_total st + duration > max_duration config
               then cand_start cand + min duration (min remaining (clip_max config))
               else cand_end cand);
            segment = make_segment cand camera cand_end';
            st' = accept_segment st camera segment
        in if run_total st' \<ge> max_duration config - 1/100 then Break st' else Continue st')"

fun select_loop :: "Config \<Rightarrow> sel_state \<Rightarrow> CandidateClip list \<Rightarrow> sel_state" where
  "select_loop config st [] = st"
| "select_loop config st (cand # rest) =
     (case select_step config st cand of
        Continue st' \<Rightarrow> select_loop config st' rest
      | Break st' \<Rightarrow> st')"

definition init_state :: sel_state where
  "init_state =
     \<lparr> selected = [], run_total = 0, camera_usage = (\<lambda>_. 0), last_camera_time = (\<lambda>_. None) \<rparr>"

record metrics =
  total_candidates :: nat
  selected_segments :: nat
  selected_duration :: real

definition select_segments ::
  "(int \<Rightarrow> nat \<Rightarrow> real) \<Rightarrow> (string \<times> CandidateClip list) list \<Rightarrow> Config \<Rightarrow> EDL \<times> metrics" where
  "select_segments Random candidates_by_src config =
     (let rng = Random (seed config);
          all_candidates = concat (map snd candidates_by_src)
      in
      if all_candidates = []
        then (empty_edl config,
              \<lparr> total_candidates = 0, selected_segments = 0, selected_duration = 0 \<rparr>)
      else
        let ordered = order_candidates all_candidates rng;
            st = select_loop config init_state ordered;
            edl = \<lparr> edl_project = project config,
                    edl_variant = variant config,
                    edl_seed = seed config,
                    edl_max_duration = max_duration config,
                    edl_clip_min = clip_min config,
                    edl_clip_max = clip_max config,
                    segments = selected st,
                    metadata = [(''target_range'', FloatList (target_range config)),
                                (''deliverables'', StrList (deliverables config))] \<rparr>
        in (edl,
            \<lparr> total_candidates = length all_candidates,
              selected_segments = length (selected st),
              selected_duration = py_round (run_total st) 3 \<rparr>))"

text \<open>
  Names for parts of \<open>select_step\<close>, used to state its properties: the end a candidate
  is given when it is accepted (lines 55 to 62), the test that one of the four rejecting
  checks fires (lines 40 to 53), and what the loop maintains about the running total.
\<close>

definition trimmed_end :: "Config \<Rightarrow> sel_state \<Rightarrow> CandidateClip \<Rightarrow> real" where
  "trimmed_end cfg st cand =
     (if run_total st + CandidateClip_duration cand > max_duration cfg
      then cand_start cand
           + min (CandidateClip_duration cand) (min (max_duration cfg - run_total st) (clip_max cfg))
      else cand_end cand)"

definition rejected :: "Config \<Rightarrow> sel_state \<Rightarrow> CandidateClip \<Rightarrow> bool" where
  "rejected cfg st cand \<longleftrightarrow>
     CandidateClip_duration cand < clip_min cfg
     \<or> CandidateClip_duration cand > clip_max cfg
     \<or> \<not> passes_overlap_check cand (selected st) (1/4)
     \<or> camera_usage st (camera_label cand) + CandidateClip_duration cand
          > max_per_cam_ratio (diversity cfg) * max_duration cfg + 1 / 10 ^ 6
     \<or> (case last_camera_time st (camera_label cand) of
           None \<Rightarrow> False
         | Some last_time \<Rightarrow>
             \<bar>cand_start cand - last_time\<bar> < min_gap_same_cam (diversity cfg))"

definition total_inv :: "Config \<Rightarrow> sel_state \<Rightarrow> bool" where
  "total_inv cfg st \<longleftrightarrow>
     run_total st = sum_list (map Segment_duration (selected st))
     \<and> run_total st \<le> max_duration cfg + 1/1000"

section \<open>mini/analysis/combine.py\<close>

definition ANCHOR_TAGS :: "string list" where
  "ANCHOR_TAGS = [''audio_peak'', ''motion'']"

text \<open>\<^verbatim>\<open>d.get(key, default)\<close> on a dict.\<close>

definition dict_get :: "('k \<times> 'v) list \<Rightarrow> 'k \<Rightarrow> 'v \<Rightarrow> 'v" where
  "dict_get d k dflt = (case map_of d k of Some v \<Rightarrow> v | None \<Rightarrow> dflt)"

fun window_contribution_loop :: "real \<Rightarrow> real \<Rightarrow> DetectionEvent list \<Rightarrow> real \<Rightarrow> real" where
  "window_contribution_loop center half [] total' = total'"
| "window_contribution_loop center half (ev # events) total' =
     (if \<bar>ev_time ev - center\<bar> \<le> half
      then window_contribution_loop center half events (total' + ev_score ev)
      else window_contribution_loop center half events total')"

definition window_contribution :: "real \<Rightarrow> DetectionEvent list \<Rightarrow> real \<Rightarrow> real" where
  "window_contribution center events window =
     window_contribution_loop center (window / 2) events 0"

definition overlaps :: "CandidateClip \<Rightarrow> CandidateClip \<Rightarrow> real \<Rightarrow> bool" where
  "overlaps a b tolerance =
     (if cand_src a \<noteq> cand_src b then False
      else let start_diff = \<bar>cand_start a - cand_start b\<bar>;
               end_diff = \<bar>cand_end a - cand_end b\<bar>
           in start_diff \<le> tolerance \<and> end_diff \<le> tolerance)"

fun merge_loop :: "real \<Rightarrow> CandidateClip list \<Rightarrow> CandidateClip list \<Rightarrow> CandidateClip list" where
  "merge_loop tolerance result [] = result"
| "merge_loop tolerance result (cand # rest) =
     (if list_ex (\<lambda>existing. overlaps cand existing tolerance) result
      then merge_loop tolerance result rest
      else merge_loop tolerance (result @ [cand]) rest)"

text \<open>
  \<^verbatim>\<open>sorted(candidates, key=lambda c: c.score, reverse=True)\<close> is a stable sort in
  descending order of the score: candidates of equal score keep their order.
\<close>

definition merge_similar_candidates :: "CandidateClip list \<Rightarrow> real \<Rightarrow> CandidateClip list" where
  "merge_similar_candidates candidates tolerance =
     merge_loop tolerance [] (sort_key (\<lambda>c. - cand_score c) candidates)"

text \<open>
  \<open>_infer_camera_label\<close> on the stem of the path, which \<^verbatim>\<open>Path(path).stem\<close> computes.
\<close>

definition infer_camera_label :: "string \<Rightarrow> string" where
  "infer_camera_label stem =
     (if CHR ''_'' \<in> set stem then takeWhile (\<lambda>c. c \<noteq> CHR ''_'') stem
      else if CHR ''-'' \<in> set stem then takeWhile (\<lambda>c. c \<noteq> CHR ''-'') stem
      else if CHR '' '' \<in> set stem then takeWhile (\<lambda>c. c \<noteq> CHR '' '') stem
      else stem)"

text \<open>Lines 46 to 53: the window of an anchor event, before rounding.\<close>

definition window_bounds :: "Config \<Rightarrow> real \<Rightarrow> real \<Rightarrow> DetectionEvent \<Rightarrow> real \<times> real" where
  "window_bounds config duration target_len event =
     (let start = max 0 (ev_time event - target_len / 2);
          end' = min duration (start + target_len);
          delta = clip_min config - (end' - start);
          grown = (if end' - start < clip_min config
                   then (max 0 (start - delta / 2), min duration (end' + delta / 2))
                   else (start, end'));
          start = fst grown;
          end' = snd grown;
          end' = (if end' - start > clip_max config then start + clip_max config else end')
      in (start, end'))"

text \<open>Lines 55 to 64: the composite score and the tags of one window.\<close>

fun score_loop ::
  "(string \<times> real) list \<Rightarrow> real \<Rightarrow> real \<Rightarrow> (string \<times> DetectionEvent list) list \<Rightarrow>
   real \<times> string set \<Rightarrow> real \<times> string set" where
  "score_loop weight_lookup center window [] acc = acc"
| "score_loop weight_lookup center window ((other_tag, events) # rest) (score, tags) =
     (let w = dict_get weight_lookup other_tag 0 in
      if w \<le> 0 then score_loop weight_lookup center window rest (score, tags)
      else
        let contribution = window_contribution center events window
        in score_loop weight_lookup center window rest
             (score + w * contribution,
              if contribution > 0 then insert other_tag tags else tags))"

text \<open>
  The body of the inner loop (lines 46 to 76) for one anchor event: \<open>None\<close> when the
  candidate is discarded. The path is given by its string, and the camera label is the
  one inferred from its stem.
\<close>

definition build_candidate ::
  "string \<Rightarrow> string \<Rightarrow> real \<Rightarrow> real \<Rightarrow> (string \<times> DetectionEvent list) list \<Rightarrow> Config \<Rightarrow>
   string \<Rightarrow> DetectionEvent \<Rightarrow> CandidateClip option" where
  "build_candidate path camera duration target_len events_by_tag config tag event =
     (let bounds = window_bounds config duration target_len event;
          start = fst bounds;
          end' = snd bounds;
          scored = score_loop (weights config) (ev_time event) (end' - start) events_by_tag
                     (0, {tag})
      in if fst scored \<le> 0 then None
         else Some \<lparr> cand_src = path,
                     cand_start = py_round start 3,
                     cand_end = py_round end' 3,
                     cand_score = fst scored,
                     cand_tags = snd scored,
                     cand_camera = Some camera \<rparr>)"

definition anchor_tags_of :: "(string \<times> DetectionEvent list) list \<Rightarrow> string list" where
  "anchor_tags_of events_by_tag =
     (let anchor_tags = filter (\<lambda>tag. case map_of events_by_tag tag of
                                        Some evs \<Rightarrow> evs \<noteq> [] | None \<Rightarrow> False) ANCHOR_TAGS
      in if anchor_tags = [] then map fst events_by_tag else anchor_tags)"

text \<open>
  \<open>generate_candidates\<close>. The duration is the result of the external probe of the path;
  \<open>events_by_tag\<close> is a dict, an association list with distinct keys. Unpacking a
  \<open>target_range\<close> that is not a pair raises.
\<close>

definition generate_candidates ::
  "string \<Rightarrow> string \<Rightarrow> real \<Rightarrow> (string \<times> DetectionEvent list) list \<Rightarrow> Config \<Rightarrow>
   error + CandidateClip list" where
  "generate_candidates path stem duration events_by_tag config =
     (if duration \<le> 0 then Inr []
      else if length (target_range config) \<noteq> 2 then Inl (ValueError ''cannot unpack target_range'')
      else
        let target_min = target_range config ! 0;
            target_max = target_range config ! 1;
            target_len = max (clip_min config) (min (clip_max config) ((target_min + target_max) / 2));
            anchor_tags = anchor_tags_of events_by_tag
        in if anchor_tags = [] then Inr []
           else
             let camera = infer_camera_label stem;
                 candidates =
                   concat (map (\<lambda>tag.
                       List.map_filter
                         (build_candidate path camera duration target_len events_by_tag config tag)
                         (dict_get events_by_tag tag []))
                     anchor_tags);
                 merged = merge_similar_candidates candidates (1/2)
             in Inr (sort_key (\<lambda>c. - cand_score c) merged))"


section \<open>mini/render/ffmpeg_cmd.py\<close>

subsection \<open>Formatting\<close>

text \<open>
  The decimal digits that an f-string writes for an integer, and the \<^verbatim>\<open>:.3f\<close> format of
  a float (three decimals, ties to even on the exact value, the sign of a negative number
  kept when it rounds to zero).
\<close>

definition digit_char :: "nat \<Rightarrow> char" where
  "digit_char d = ''0123456789'' ! d"

function show_nat :: "nat \<Rightarrow> string" where
  "show_nat n = (if n < 10 then [digit_char n] else show_nat (n div 10) @ [digit_char (n mod 10)])"
  by pat_completeness auto
termination
  by (relation "measure id") auto

declare show_nat.simps [simp del]

definition show_int :: "int \<Rightarrow> string" where
  "show_int i = (if i < 0 then ''-'' @ show_nat (nat (- i)) else show_nat (nat i))"

definition fmt3 :: "real \<Rightarrow> string" where
  "fmt3 x =
     (let m = nat (round_half_even (\<bar>x\<bar> * 1000))
      in (if x < 0 then ''-'' else '''') @ show_nat (m div 1000) @ ''.''
         @ [digit_char (m div 100 mod 10), digit_char (m div 10 mod 10), digit_char (m mod 10)])"

definition lower_char :: "char \<Rightarrow> char" where
  "lower_char c =
     (if CHR ''A'' \<le> c \<and> c \<le> CHR ''Z'' then char_of (of_char c + (32 :: nat)) else c)"

fun join :: "string \<Rightarrow> string list \<Rightarrow> string" where
  "join sep [] = []"
| "join sep [x] = x"
| "join sep (x # y # ys) = x @ sep @ join sep (y # ys)"

subsection \<open>The filter graph\<close>

text \<open>
  Every line that \<open>build_filter_complex\<close> appends has the shape
  \<^verbatim>\<open>[in]...[in]filter[out]...[out]\<close>: a node of the graph, with the labels it reads, its
  filter chain and the labels it writes. \<open>render_node\<close> is the line's text.
\<close>

record node =
  n_inputs :: "string list"
  n_filter :: string
  n_outputs :: "string list"

definition bracket :: "string \<Rightarrow> string" where
  "bracket l = ''['' @ l @ '']''"

definition render_node :: "node \<Rightarrow> string" where
  "render_node n =
     concat (map bracket (n_inputs n)) @ n_filter n @ concat (map bracket (n_outputs n))"

definition ASPECT_DIMENSIONS :: "(string \<times> int \<times> int) list" where
  "ASPECT_DIMENSIONS = [(''9:16'', (1080, 1920)), (''1:1'', (1080, 1080)), (''16:9'', (1920, 1080))]"

text \<open>The payload dict of one segment: \<open>src_index\<close>, \<open>in\<close>, \<open>out\<close>.\<close>

record seg_payload =
  src_index :: int
  p_in :: real
  p_out :: real

definition logo_coordinates :: "real \<Rightarrow> string \<Rightarrow> string \<times> string" where
  "logo_coordinates safe_area' corner =
     (let safe = max 0 (min 1 (if safe_area' = 0 then 0.8 else safe_area'));
          margin = (1 - safe) / 2;
          left = ''(main_w*'' @ fmt3 margin @ '')'';
          right = ''(main_w*(1-'' @ fmt3 margin @ '') - overlay_w)'';
          top = ''(main_h*'' @ fmt3 margin @ '')'';
          bottom = ''(main_h*(1-'' @ fmt3 margin @ '') - overlay_h)'';
          corner = map lower_char (if corner = [] then ''bottom_right'' else corner)
      in if corner = ''bottom_left'' then (left, bottom)
         else if corner = ''top_right'' then (right, top)
         else if corner = ''top_left'' then (left, top)
         else (right, bottom))"

definition usage_count :: "seg_payload list \<Rightarrow> int \<Rightarrow> nat" where
  "usage_count segs idx = length (filter (\<lambda>seg. src_index seg = idx) segs)"

text \<open>
  The labels of a source's branches: \<open>v{idx}b0 ... v{idx}b{count-1}\<close> after a split, the
  base label alone when the source is used once.
\<close>

definition branch_labels :: "string \<Rightarrow> int \<Rightarrow> nat \<Rightarrow> string list" where
  "branch_labels kind idx count =
     (if count > 1 then map (\<lambda>n. kind @ show_int idx @ ''b'' @ show_nat n) [0..<count]
      else [kind @ show_int idx @ ''base''])"

record branch_state =
  b_lines :: "node list"
  video_branches :: "int \<Rightarrow> string list option"
  audio_branches :: "int \<Rightarrow> string list option"

text \<open>The loop over \<open>range(inputs_count)\<close>: the base streams and their splits.\<close>

definition source_step :: "seg_payload list \<Rightarrow> (int \<times> bool) list \<Rightarrow> int \<Rightarrow> branch_state \<Rightarrow> branch_state" where
  "source_step segs audio_flags idx st =
     (let count = usage_count segs idx in
      if count = 0 then st
      else
        let base_v = ''v'' @ show_int idx @ ''base'';
            v_lines =
              \<lparr> n_inputs = [show_int idx @ '':v''], n_filter = ''setsar=1'', n_outputs = [base_v] \<rparr>
              # (if count > 1
                 then [\<lparr> n_inputs = [base_v], n_filter = ''split='' @ show_nat count,
                          n_outputs = branch_labels ''v'' idx count \<rparr>]
                 else []);
            base_a = ''a'' @ show_int idx @ ''base'';
            a_lines =
              (if dict_get audio_flags idx True
               then \<lparr> n_inputs = [show_int idx @ '':a''],
                      n_filter = ''aresample=48000,aformat=channel_layouts=stereo'',
                      n_outputs = [base_a] \<rparr>
                    # (if count > 1
                       then [\<lparr> n_inputs = [base_a], n_filter = ''asplit='' @ show_nat count,
                                n_outputs = branch_labels ''a'' idx count \<rparr>]
                       else [])
               else [])
        in \<lparr> b_lines = b_lines st @ v_lines @ a_lines,
             video_branches = (video_branches st)(idx \<mapsto> branch_labels ''v'' idx count),
             audio_branches = (audio_branches st)
               (idx \<mapsto> (if dict_get audio_flags idx True then branch_labels ''a'' idx count
                          else [])) \<rparr>)"

fun source_loop :: "seg_payload list \<Rightarrow> (int \<times> bool) list \<Rightarrow> int list \<Rightarrow> branch_state \<Rightarrow> branch_state" where
  "source_loop segs audio_flags [] st = st"
| "source_loop segs audio_flags (idx # rest) st =
     source_loop segs audio_flags rest (source_step segs audio_flags idx st)"

definition scale_expr :: "int \<Rightarrow> int \<Rightarrow> string" where
  "scale_expr width height =
     ''scale=iw*min('' @ show_int width @ ''/iw'' @ [CHR 0x5C] @ '','' @ show_int height @ ''/ih):''
     @ ''ih*min('' @ show_int width @ ''/iw'' @ [CHR 0x5C] @ '','' @ show_int height
     @ ''/ih):flags=lanczos,''
     @ ''pad='' @ show_int width @ '':'' @ show_int height @ '':(max('' @ show_int width @ ''-iw''
     @ [CHR 0x5C] @ '',0))/2:(max('' @ show_int height @ ''-ih'' @ [CHR 0x5C] @ '',0))/2:black''"

record seg_state =
  s_lines :: "node list"
  video_cursor :: "int \<Rightarrow> nat option"
  audio_cursor :: "int \<Rightarrow> nat option"
  concat_inputs :: "string list"

text \<open>
  One iteration of the loop over \<open>enumerate(segments)\<close>. Reading a dict at a missing key
  and a list beyond its end raise.
\<close>

definition segment_step ::
  "branch_state \<Rightarrow> (int \<times> bool) list \<Rightarrow> string \<Rightarrow> bool \<Rightarrow> nat \<Rightarrow> seg_payload \<Rightarrow> seg_state \<Rightarrow>
   error + seg_state" where
  "segment_step br audio_flags scale synth_silence idx seg st =
     (let src_idx = src_index seg;
          start = p_in seg;
          end' = (if p_out seg < start then start else p_out seg);
          duration = max 0 (end' - start)
      in
      case video_branches br src_idx of
        None \<Rightarrow> Inl (ValueError ''No video branches for input'')
      | Some v_branch_list \<Rightarrow>
          if v_branch_list = [] then Inl (ValueError ''No video branches for input'')
          else
            (case video_cursor st src_idx of
               None \<Rightarrow> Inl (KeyError ''video_cursor'')
             | Some vc \<Rightarrow>
                 if \<not> vc < length v_branch_list then Inl (IndexError ''list index out of range'')
                 else
                   let v_branch = v_branch_list ! vc;
                       trim_label = ''vtrim'' @ show_nat idx;
                       v_lines =
                         [\<lparr> n_inputs = [v_branch],
                            n_filter = ''trim=start='' @ fmt3 start @ '':end='' @ fmt3 end'
                              @ '',setpts=PTS-STARTPTS'',
                            n_outputs = [trim_label] \<rparr>,
                          \<lparr> n_inputs = [trim_label], n_filter = scale @ '',setsar=1'',
                            n_outputs = [''v'' @ show_nat idx] \<rparr>];
                       st1 = st \<lparr> s_lines := s_lines st @ v_lines,
                                  video_cursor := (video_cursor st)(src_idx \<mapsto> vc + 1) \<rparr>;
                       pair = [''v'' @ show_nat idx, ''a'' @ show_nat idx]
                   in
                   if dict_get audio_flags src_idx True then
                     (case audio_branches br src_idx of
                        None \<Rightarrow> Inl (ValueError ''No audio branches for input'')
                      | Some a_branch_list \<Rightarrow>
                          if a_branch_list = [] then Inl (ValueError ''No audio branches for input'')
                          else
                            (case audio_cursor st src_idx of
                               None \<Rightarrow> Inl (KeyError ''audio_cursor'')
                             | Some ac \<Rightarrow>
                                 if \<not> ac < length a_branch_list
                                   then Inl (IndexError ''list index out of range'')
                                 else
                                   Inr (st1 \<lparr> s_lines := s_lines st1 @
                                          [\<lparr> n_inputs = [a_branch_list ! ac],
                                             n_filter = ''atrim=start='' @ fmt3 start @ '':end=''
                                               @ fmt3 end' @ '',asetpts=PTS-STARTPTS'',
                                             n_outputs = [''a'' @ show_nat idx] \<rparr>],
                                        audio_cursor := (audio_cursor st)(src_idx \<mapsto> ac + 1),
                                        concat_inputs := concat_inputs st @ pair \<rparr>)))
                   else if synth_silence then
                     Inr (st1 \<lparr> s_lines := s_lines st1 @
                            [\<lparr> n_inputs = [],
                               n_filter = ''anullsrc=r=48000:cl=stereo,atrim=duration=''
                                 @ fmt3 duration @ '',asetpts=PTS-STARTPTS'',
                               n_outputs = [''a'' @ show_nat idx] \<rparr>],
                          concat_inputs := concat_inputs st @ pair \<rparr>)
                   else Inl (ValueError ''Input has no audio and silence synthesis disabled'')))"

fun segment_loop ::
  "branch_state \<Rightarrow> (int \<times> bool) list \<Rightarrow> string \<Rightarrow> bool \<Rightarrow> (nat \<times> seg_payload) list \<Rightarrow> seg_state \<Rightarrow>
   error + seg_state" where
  "segment_loop br audio_flags scale synth_silence [] st = Inr st"
| "segment_loop br audio_flags scale synth_silence ((idx, seg) # rest) st =
     (case segment_step br audio_flags scale synth_silence idx seg st of
        Inl e \<Rightarrow> Inl e
      | Inr st' \<Rightarrow> segment_loop br audio_flags scale synth_silence rest st')"

text \<open>\<^verbatim>\<open>source_audio or {i: True for i in range(inputs_count)}\<close>\<close>

definition audio_flags_of :: "(int \<times> bool) list option \<Rightarrow> int \<Rightarrow> (int \<times> bool) list" where
  "audio_flags_of source_audio inputs_count =
     (case source_audio of
        Some d \<Rightarrow> if d \<noteq> [] then d else map (\<lambda>i. (i, True)) [0..inputs_count - 1]
      | None \<Rightarrow> map (\<lambda>i. (i, True)) [0..inputs_count - 1])"

text \<open>
  The nodes of the graph, in the order of the lines. \<open>source_audio\<close> is an optional dict;
  an absent or empty one stands for audio on every input.
\<close>

definition build_filter_lines ::
  "seg_payload list \<Rightarrow> int \<Rightarrow> int option \<Rightarrow> int \<Rightarrow> int \<Rightarrow> (int \<times> bool) list option \<Rightarrow> string \<Rightarrow>
   real \<Rightarrow> bool \<Rightarrow> bool \<Rightarrow> error + node list" where
  "build_filter_lines segs inputs_count logo_idx width height source_audio corner logo_safe_area
     loudnorm synth_silence =
     (let audio_flags = audio_flags_of source_audio inputs_count;
          br = source_loop segs audio_flags [0..inputs_count - 1]
                 \<lparr> b_lines = [], video_branches = (\<lambda>_. None), audio_branches = (\<lambda>_. None) \<rparr>;
          st0 = \<lparr> s_lines = b_lines br,
                  video_cursor = (\<lambda>idx. map_option (\<lambda>_. 0) (video_branches br idx)),
                  audio_cursor = (\<lambda>idx. map_option (\<lambda>_. 0) (audio_branches br idx)),
                  concat_inputs = [] \<rparr>
      in
      case segment_loop br audio_flags (scale_expr width height) synth_silence
             (enumerate 0 segs) st0 of
        Inl e \<Rightarrow> Inl e
      | Inr st \<Rightarrow>
          let concat_line =
                \<lparr> n_inputs = concat_inputs st,
                  n_filter = ''concat=n='' @ show_nat (length segs) @ '':v=1:a=1'',
                  n_outputs = [''vcat'', ''acat''] \<rparr>;
              overlay_lines =
                (case logo_idx of
                   Some l \<Rightarrow>
                     [\<lparr> n_inputs = [''vcat'', show_int l],
                        n_filter = ''overlay=x='' @ fst (logo_coordinates logo_safe_area corner)
                          @ '':y='' @ snd (logo_coordinates logo_safe_area corner)
                          @ '':format=auto'',
                        n_outputs = [''vo''] \<rparr>]
                 | None \<Rightarrow> []);
              video_out = (case logo_idx of Some l \<Rightarrow> ''vo'' | None \<Rightarrow> ''vcat'');
              tail_lines =
                [\<lparr> n_inputs = [video_out], n_filter = ''format=yuv420p'', n_outputs = [''vout''] \<rparr>,
                 (if loudnorm
                  then \<lparr> n_inputs = [''acat''], n_filter = ''loudnorm=I=-14:TP=-1.0:LRA=11'',
                         n_outputs = [''aout''] \<rparr>
                  else \<lparr> n_inputs = [''acat''], n_filter = ''anorm=2'', n_outputs = [''aout''] \<rparr>)]
          in Inr (s_lines st @ [concat_line] @ overlay_lines @ tail_lines))"

definition build_filter_complex ::
  "seg_payload list \<Rightarrow> int \<Rightarrow> int option \<Rightarrow> int \<Rightarrow> int \<Rightarrow> (int \<times> bool) list option \<Rightarrow> string \<Rightarrow>
   real \<Rightarrow> bool \<Rightarrow> bool \<Rightarrow> error + (string \<times> string \<times> string)" where
  "build_filter_complex segs inputs_count logo_idx width height source_audio corner logo_safe_area
     loudnorm synth_silence =
     (case build_filter_lines segs inputs_count logo_idx width height source_audio corner
             logo_safe_area loudnorm synth_silence of
        Inl e \<Rightarrow> Inl e
      | Inr nodes \<Rightarrow> Inr (join '';'' (map render_node nodes), ''[vout]'', ''[aout]''))"


subsection \<open>Commands\<close>

text \<open>
  What the compiler asks of its surroundings: the ffmpeg executable's name
  (\<open>_ffmpeg_executable\<close>), the audio probe (\<open>_has_audio_stream\<close>), whether a path exists,
  and the text of a path (\<^verbatim>\<open>str(Path(p))\<close>). The output stub is given by what pathlib
  reads from it: its suffix and its text without the suffix.
\<close>

record environment =
  ffmpeg_executable :: string
  has_audio_stream :: "string \<Rightarrow> bool"
  path_exists :: "string \<Rightarrow> bool"
  path_str :: "string \<Rightarrow> string"

record stub_path =
  stub_suffix :: string
  stub_base :: string

definition derive_output_path :: "environment \<Rightarrow> stub_path \<Rightarrow> string \<Rightarrow> string" where
  "derive_output_path env stub ratio =
     (let suffix = (if stub_suffix stub = [] then ''.mp4'' else stub_suffix stub);
          base = stub_base stub
      in path_str env
           (base @ ''_'' @ map (\<lambda>c. if c = CHR '':'' then CHR ''x'' else c) ratio @ suffix))"

text \<open>A comprehension whose element may raise: the first error ends it.\<close>

fun map_result :: "('a \<Rightarrow> error + 'b) \<Rightarrow> 'a list \<Rightarrow> error + 'b list" where
  "map_result f [] = Inr []"
| "map_result f (x # xs) =
     (case f x of
        Inl e \<Rightarrow> Inl e
      | Inr y \<Rightarrow> (case map_result f xs of Inl e \<Rightarrow> Inl e | Inr ys \<Rightarrow> Inr (y # ys)))"

text \<open>\<^verbatim>\<open>d[key]\<close> on a dict.\<close>

definition dict_item :: "(string \<times> 'v) list \<Rightarrow> string \<Rightarrow> error + 'v" where
  "dict_item d k = (case map_of d k of None \<Rightarrow> Inl (KeyError k) | Some v \<Rightarrow> Inr v)"

text \<open>\<^verbatim>\<open>list(dict.fromkeys(xs))\<close>: the distinct elements in the order of their first occurrence.\<close>

definition ordered_distinct :: "'a list \<Rightarrow> 'a list" where
  "ordered_distinct xs = rev (remdups (rev xs))"

definition build_single_command ::
  "environment \<Rightarrow> BrandingSettings \<Rightarrow> Segment list \<Rightarrow> int \<Rightarrow> int \<Rightarrow> string \<Rightarrow> error + string list" where
  "build_single_command env branding' segs width height output_path =
     (let ordered_sources = ordered_distinct (map seg_src segs);
          input_map = zip ordered_sources (map int [0..<length ordered_sources]);
          input_args = concat (map (\<lambda>src. [''-i'', src]) ordered_sources);
          logo = (case logo_path branding' of
                    None \<Rightarrow> (None, [])
                  | Some p \<Rightarrow>
                      if p = [] then (None, [])
                      else if path_exists env p
                        then (Some (int (length ordered_sources)), [''-i'', path_str env p])
                      else (None, []));
          logo_index = fst logo;
          input_args = input_args @ snd logo
      in
      case map_result (\<lambda>src. case dict_item input_map src of
                                Inl e \<Rightarrow> Inl e
                              | Inr idx \<Rightarrow> Inr (idx, has_audio_stream env src)) ordered_sources of
        Inl e \<Rightarrow> Inl e
      | Inr audio_presence \<Rightarrow>
          (case map_result (\<lambda>seg. case dict_item input_map (seg_src seg) of
                                    Inl e \<Rightarrow> Inl e
                                  | Inr idx \<Rightarrow> Inr \<lparr> src_index = idx, p_in = seg_start seg,
                                                     p_out = seg_end seg \<rparr>) segs of
             Inl e \<Rightarrow> Inl e
           | Inr segment_payload \<Rightarrow>
               (case build_filter_complex segment_payload (int (length ordered_sources)) logo_index
                       width height (Some audio_presence) (logo_corner branding')
                       (safe_area branding') True True of
                  Inl e \<Rightarrow> Inl e
                | Inr (filter_complex, video_label, audio_label) \<Rightarrow>
                    Inr ([ffmpeg_executable env, ''-y''] @ input_args
                         @ [''-filter_complex'', filter_complex, ''-map'', video_label,
                            ''-map'', audio_label, ''-c:v'', ''libx264'', ''-preset'', ''veryfast'',
                            ''-crf'', ''18'', ''-c:a'', ''aac'', ''-b:a'', ''192k'',
                            ''-movflags'', ''+faststart'', ''-r'', ''30'', output_path]))))"

text \<open>
  The loop of \<open>build_commands\<close> over the deliverables; \<open>commands\<close> is the dict built so
  far, and storing at a key that is present replaces its value in place.
\<close>

fun commands_loop ::
  "environment \<Rightarrow> EDL \<Rightarrow> Config \<Rightarrow> stub_path \<Rightarrow> string list \<Rightarrow> (string \<times> string list) list \<Rightarrow>
   error + (string \<times> string list) list" where
  "commands_loop env edl config stub [] commands = Inr commands"
| "commands_loop env edl config stub (ratio # rest) commands =
     (case map_of ASPECT_DIMENSIONS ratio of
        None \<Rightarrow> commands_loop env edl config stub rest commands
      | Some dims \<Rightarrow>
          (case build_single_command env (branding config) (segments edl) (fst dims) (snd dims)
                  (derive_output_path env stub ratio) of
             Inl e \<Rightarrow> Inl e
           | Inr cmd \<Rightarrow>
               commands_loop env edl config stub rest (AList.update ratio cmd commands)))"

definition build_commands ::
  "environment \<Rightarrow> EDL \<Rightarrow> Config \<Rightarrow> stub_path \<Rightarrow> error + (string \<times> string list) list" where
  "build_commands env edl config output_stub =
     (if segments edl = [] then Inl (ValueError ''EDL contains no segments to render'')
      else commands_loop env edl config output_stub (deliverables config) [])"


section \<open>Test inputs and names for the properties\<close>

text \<open>Inputs of the repository's tests, and names used to state the selector's properties.\<close>

text \<open>A generator whose draws are all 0: it leaves the first ordering as it is.\<close>

definition no_jitter :: "int \<Rightarrow> nat \<Rightarrow> real" where
  "no_jitter s k = 0"

definition base_config :: Config where
  "base_config =
     \<lparr> project = ''Event_Recap'', variant = ''deterministic'', seed = 42,
       max_duration = 12, clip_min = 1, clip_max = 4, target_range = [2, 3.5],
       weights = DEFAULT_WEIGHTS,
       diversity = \<lparr> min_gap_same_cam = 1, max_per_cam_ratio = 0.5 \<rparr>,
       branding = \<lparr> logo_path = None, logo_corner = ''bottom_right'', logo_size_px = 64,
         safe_area = 0.8, intro_path = None, outro_path = None, lut_path = None, fonts = [] \<rparr>,
       deliverables = [''9:16''] \<rparr>"

definition clip :: "string \<Rightarrow> real \<Rightarrow> real \<Rightarrow> real \<Rightarrow> string \<Rightarrow> string \<Rightarrow> CandidateClip" where
  "clip s a b sc t c =
     \<lparr> cand_src = s, cand_start = a, cand_end = b, cand_score = sc, cand_tags = {t},
       cand_camera = Some c \<rparr>"

definition duration_cap_config :: Config where
  "duration_cap_config = base_config \<lparr> max_duration := 6 \<rparr>"

definition duration_cap_clips :: "(string \<times> CandidateClip list) list" where
  "duration_cap_clips =
     [(''camA.mp4'', [clip ''camA.mp4'' 0 3 0.8 ''motion'' ''camA'']),
      (''camB.mp4'', [clip ''camB.mp4'' 0 3 0.7 ''audio_peak'' ''camB'']),
      (''camC.mp4'', [clip ''camC.mp4'' 0 3 0.6 ''faces'' ''camC''])]"

definition short_reel_config :: Config where
  "short_reel_config =
     base_config \<lparr> max_duration := 0.0105, clip_min := 0.01,
       diversity := \<lparr> min_gap_same_cam = 1, max_per_cam_ratio = 1 \<rparr> \<rparr>"

definition short_reel_clips :: "(string \<times> CandidateClip list) list" where
  "short_reel_clips = [(''camA.mp4'', [clip ''camA.mp4'' 0.0004 0.0106 0.8 ''motion'' ''camA''])]"

definition camera_total :: "Segment list \<Rightarrow> string \<Rightarrow> real" where
  "camera_total segs c =
     sum_list (map Segment_duration (filter (\<lambda>s. seg_camera s = Some c) segs))"

definition camera_share :: "Config \<Rightarrow> real" where
  "camera_share cfg = max_per_cam_ratio (diversity cfg) * max_duration cfg"

definition usage_inv :: "Config \<Rightarrow> real \<Rightarrow> sel_state \<Rightarrow> bool" where
  "usage_inv cfg slack st \<longleftrightarrow>
     (\<forall>c. camera_usage st c = camera_total (selected st) c
        \<and> camera_usage st c \<le> camera_share cfg + 1 / 10 ^ 6 + slack)"

definition on_grid :: "CandidateClip \<Rightarrow> bool" where
  "on_grid c \<longleftrightarrow> py_round (cand_start c) 3 = cand_start c \<and> py_round (cand_end c) 3 = cand_end c"

definition overlap :: "Segment \<Rightarrow> Segment \<Rightarrow> real" where
  "overlap a b = min (seg_end a) (seg_end b) - max (seg_start a) (seg_start b)"

definition overlap_inv :: "sel_state \<Rightarrow> bool" where
  "overlap_inv st \<longleftrightarrow>
     (\<forall>s \<in> set (selected st).
        py_round (seg_start s) 3 = seg_start s \<and> py_round (seg_end s) 3 = seg_end s)
     \<and> (\<forall>i j. i < j \<longrightarrow> j < length (selected st) \<longrightarrow>
           seg_src (selected st ! i) = seg_src (selected st ! j) \<longrightarrow>
           overlap (selected st ! i) (selected st ! j) \<le> 1/4)"

definition trim_config :: Config where
  "trim_config =
     base_config \<lparr> max_duration := 5,
       diversity := \<lparr> min_gap_same_cam = 1, max_per_cam_ratio = 1 \<rparr> \<rparr>"

definition after_first_clip :: sel_state where
  "after_first_clip =
     accept_segment init_state ''camA''
       (make_segment (clip ''camA.mp4'' 0 3 0.8 ''motion'' ''camA'') ''camA'' 3)"

definition diversity_config :: Config where
  "diversity_config =
     base_config \<lparr> max_duration := 10,
       diversity := \<lparr> min_gap_same_cam = 1, max_per_cam_ratio = 0.4 \<rparr> \<rparr>"

definition diversity_clips :: "(string \<times> CandidateClip list) list" where
  "diversity_clips =
     [(''camA.mp4'', [clip ''camA.mp4'' 0 4 0.8 ''motion'' ''camA'',
                      clip ''camA.mp4'' 4.5 8.5 0.7 ''motion'' ''camA'']),
      (''camB.mp4'', [clip ''camB.mp4'' 0 3 0.6 ''faces'' ''camB''])]"

definition off_grid_config :: Config where
  "off_grid_config = diversity_config \<lparr> clip_max := 4.5 \<rparr>"

definition off_grid_clips :: "(string \<times> CandidateClip list) list" where
  "off_grid_clips =
     [(''camA.mp4'', [clip ''camA.mp4'' 0.0004996 4.0005004 0.8 ''motion'' ''camA''])]"

definition overlap_clips :: "(string \<times> CandidateClip list) list" where
  "overlap_clips =
     [(''camA.mp4'', [clip ''camA.mp4'' 0 3 0.9 ''audio_peak'' ''camA'',
                      clip ''camA.mp4'' 0.1 3.1 0.4 ''audio_peak'' ''camA'',
                      clip ''camA.mp4'' 2.8 5.6 0.7 ''motion'' ''camA''])]"

definition after_high_clip :: sel_state where
  "after_high_clip =
     accept_segment init_state ''camA''
       (make_segment (clip ''camA.mp4'' 0 3 0.9 ''audio_peak'' ''camA'') ''camA'' 3)"

definition determinism_clips :: "(string \<times> CandidateClip list) list" where
  "determinism_clips =
     [(''camA.mp4'', [clip ''camA.mp4'' 0 3 0.9 ''motion'' ''camA'']),
      (''camB.mp4'', [clip ''camB.mp4'' 0 3 0.85 ''audio_peak'' ''camB''])]"

definition round_segment :: "Segment \<Rightarrow> Segment" where
  "round_segment s =
     s \<lparr> seg_start := py_round (seg_start s) 3,
         seg_end := py_round (seg_end s) 3,
         seg_score := py_round (seg_score s) 4 \<rparr>"

definition unsorted_tags_edl :: EDL where
  "unsorted_tags_edl =
     \<lparr> edl_project = ''Event_Recap'', edl_variant = ''deterministic'', edl_seed = 42,
       edl_max_duration = 60, edl_clip_min = 1, edl_clip_max = 4,
       segments = [\<lparr> seg_src = ''camA.mp4'', seg_start = 0, seg_end = 2.5, seg_score = 0.8,
                      seg_tags = [''motion'', ''faces''], seg_camera = Some ''camA'' \<rparr>],
       metadata = [] \<rparr>"

definition tags_inv :: "sel_state \<Rightarrow> bool" where
  "tags_inv st \<longleftrightarrow> (\<forall>s \<in> set (selected st). sorted (seg_tags s) \<and> distinct (seg_tags s))"

definition audio_only_config :: Config where
  "audio_only_config = base_config \<lparr> weights := [(''audio_peak'', 1)] \<rparr>"

definition two_tag_events :: "(string \<times> DetectionEvent list) list" where
  "two_tag_events =
     [(''motion'', [\<lparr> ev_time = 5, ev_score = 0.5, ev_tag = ''motion'' \<rparr>]),
      (''audio_peak'', [\<lparr> ev_time = 6, ev_score = 0.8, ev_tag = ''audio_peak'' \<rparr>])]"

definition target_len_of :: "Config \<Rightarrow> real" where
  "target_len_of cfg =
     max (clip_min cfg) (min (clip_max cfg) ((target_range cfg ! 0 + target_range cfg ! 1) / 2))"

definition window_of :: "Config \<Rightarrow> real \<Rightarrow> DetectionEvent \<Rightarrow> real" where
  "window_of cfg duration event =
     snd (window_bounds cfg duration (target_len_of cfg) event)
       - fst (window_bounds cfg duration (target_len_of cfg) event)"

definition high_clip :: CandidateClip where
  "high_clip = clip ''camA.mp4'' 0 3 0.9 ''audio_peak'' ''camA''"

definition low_clip :: CandidateClip where
  "low_clip = clip ''camA.mp4'' 0.1 3.1 0.4 ''audio_peak'' ''camA''"

definition is_concat_node :: "node \<Rightarrow> bool" where
  "is_concat_node n \<longleftrightarrow> prefix ''concat='' (n_filter n)"

text \<open>How many earlier segments of the list reference the source of segment \<open>i\<close>.\<close>

definition occurrence :: "seg_payload list \<Rightarrow> nat \<Rightarrow> nat" where
  "occurrence segs i = usage_count (take i segs) (src_index (segs ! i))"

text \<open>The nodes that the loop appends for segment \<open>i\<close> when it draws branch \<open>k\<close>.\<close>

definition segment_nodes ::
  "(int \<times> bool) list \<Rightarrow> string \<Rightarrow> nat \<Rightarrow> nat \<Rightarrow> seg_payload \<Rightarrow> nat \<Rightarrow> node list" where
  "segment_nodes audio_flags scale cnt i seg k =
     [\<lparr> n_inputs = [branch_labels ''v'' (src_index seg) cnt ! k],
        n_filter = ''trim=start='' @ fmt3 (p_in seg) @ '':end='' @ fmt3 (max (p_in seg) (p_out seg))
          @ '',setpts=PTS-STARTPTS'',
        n_outputs = [''vtrim'' @ show_nat i] \<rparr>,
      \<lparr> n_inputs = [''vtrim'' @ show_nat i], n_filter = scale @ '',setsar=1'',
        n_outputs = [''v'' @ show_nat i] \<rparr>,
      (if dict_get audio_flags (src_index seg) True
       then \<lparr> n_inputs = [branch_labels ''a'' (src_index seg) cnt ! k],
              n_filter = ''atrim=start='' @ fmt3 (p_in seg) @ '':end=''
                @ fmt3 (max (p_in seg) (p_out seg)) @ '',asetpts=PTS-STARTPTS'',
              n_outputs = [''a'' @ show_nat i] \<rparr>
       else \<lparr> n_inputs = [],
              n_filter = ''anullsrc=r=48000:cl=stereo,atrim=duration=''
                @ fmt3 (max 0 (max (p_in seg) (p_out seg) - p_in seg)) @ '',asetpts=PTS-STARTPTS'',
              n_outputs = [''a'' @ show_nat i] \<rparr>)]"

text \<open>The concatenation node of a graph of \<open>n\<close> segments.\<close>

definition concat_node :: "nat \<Rightarrow> node" where
  "concat_node n =
     \<lparr> n_inputs = concat (map (\<lambda>j. [''v'' @ show_nat j, ''a'' @ show_nat j]) [0..<n]),
       n_filter = ''concat=n='' @ show_nat n @ '':v=1:a=1'',
       n_outputs = [''vcat'', ''acat''] \<rparr>"

definition graph_test_segments :: "seg_payload list" where
  "graph_test_segments =
     [\<lparr> src_index = 0, p_in = 1, p_out = 2 \<rparr>,
      \<lparr> src_index = 1, p_in = 3, p_out = 4 \<rparr>,
      \<lparr> src_index = 0, p_in = 5, p_out = 6 \<rparr>]"

definition render_test_edl :: EDL where
  "render_test_edl =
     \<lparr> edl_project = ''Event_Recap'', edl_variant = ''deterministic'', edl_seed = 42,
       edl_max_duration = 60, edl_clip_min = 1, edl_clip_max = 4,
       segments = [\<lparr> seg_src = ''camA.mp4'', seg_start = 0, seg_end = 2.5, seg_score = 0.8,
                      seg_tags = [''motion''], seg_camera = Some ''camA'' \<rparr>,
                   \<lparr> seg_src = ''camB.mp4'', seg_start = 5, seg_end = 8, seg_score = 0.7,
                      seg_tags = [''faces''], seg_camera = Some ''camB'' \<rparr>],
       metadata = [] \<rparr>"

definition test_environment :: environment where
  "test_environment =
     \<lparr> ffmpeg_executable = ''ffmpeg'', has_audio_stream = (\<lambda>_. True),
       path_exists = (\<lambda>_. False), path_str = (\<lambda>p. p) \<rparr>"

definition no_segments_edl :: EDL where
  "no_segments_edl = render_test_edl \<lparr> segments := [] \<rparr>"

definition two_ratio_config :: Config where
  "two_ratio_config = base_config \<lparr> deliverables := [''9:16'', ''4:3''] \<rparr>"

definition output_stub :: stub_path where
  "output_stub = \<lparr> stub_suffix = ''.mp4'', stub_base = ''output'' \<rparr>"

text \<open>
  The two sort keys of \<open>_order_candidates\<close> (lines 105 and 111), the list after the first
  sort, and the ordering as the specification words it: the candidates in the order of
  the first sort, the \<open>k\<close>-th of them with the \<open>k\<close>-th draw times \<open>1e-6\<close> added to its score,
  sorted by \<open>(-(score + jitter), source, start)\<close>.
\<close>

definition first_key :: "CandidateClip \<Rightarrow> real \<times> string \<times> real \<times> real" where
  "first_key c = (- cand_score c, cand_src c, cand_start c, cand_end c)"

definition jitter_key :: "real \<times> CandidateClip \<Rightarrow> real \<times> string \<times> real" where
  "jitter_key item = (- fst item, cand_src (snd item), cand_start (snd item))"

definition first_sort :: "CandidateClip list \<Rightarrow> CandidateClip list" where
  "first_sort cs = sort_key first_key cs"

definition jitter_order :: "CandidateClip list \<Rightarrow> (nat \<Rightarrow> real) \<Rightarrow> CandidateClip list" where
  "jitter_order cs rng =
     map snd (sort_key jitter_key
       (map (\<lambda>k. (cand_score (first_sort cs ! k) + rng k * (1 / 10 ^ 6), first_sort cs ! k))
          [0..<length cs]))"

text \<open>Scores in descending order, each at least \<open>1e-6\<close> above the ones after it.\<close>

fun separated :: "CandidateClip list \<Rightarrow> bool" where
  "separated [] = True"
| "separated (c # cs) = ((\<forall>d \<in> set cs. cand_score d + 1 / 10 ^ 6 \<le> cand_score c) \<and> separated cs)"

text \<open>
  Two candidates of equal score from two cameras, a reel that has room for one of them,
  and generators whose first two draws are in opposite order.
\<close>

definition tie_config :: Config where
  "tie_config =
     base_config \<lparr> max_duration := 3,
       diversity := \<lparr> min_gap_same_cam = 1, max_per_cam_ratio = 1 \<rparr> \<rparr>"

definition tie_clip_a :: CandidateClip where
  "tie_clip_a = clip ''camA.mp4'' 0 3 0.8 ''motion'' ''camA''"

definition tie_clip_b :: CandidateClip where
  "tie_clip_b = clip ''camB.mp4'' 0 3 0.8 ''motion'' ''camB''"

definition tie_clips :: "(string \<times> CandidateClip list) list" where
  "tie_clips = [(''camA.mp4'', [tie_clip_a]), (''camB.mp4'', [tie_clip_b])]"

definition generator_lo_hi :: "int \<Rightarrow> nat \<Rightarrow> real" where
  "generator_lo_hi s k = (if k = 0 then 1/4 else if k = 1 then 3/4 else 0)"

definition generator_lo_hi' :: "int \<Rightarrow> nat \<Rightarrow> real" where
  "generator_lo_hi' s k = (if k = 0 then 1/4 else if k = 1 then 3/4 else 1/2)"

definition generator_hi_lo :: "int \<Rightarrow> nat \<Rightarrow> real" where
  "generator_hi_lo s k = (if k = 0 then 3/4 else if k = 1 then 1/4 else 0)"

text \<open>
  The candidate of an anchor event as the specification words it. The sum of the scores
  of the events of one tag within the window's half-width of the anchor time; the
  composite score, the weighted sum over the tags of positive weight; the tags that
  contributed a positive amount; the anchor events in the order the loops visit them;
  and the clip built for one of them.
\<close>

definition window_sum :: "Config \<Rightarrow> real \<Rightarrow> DetectionEvent \<Rightarrow> DetectionEvent list \<Rightarrow> real" where
  "window_sum cfg duration event evs =
     sum_list (map ev_score
       (filter (\<lambda>ev. \<bar>ev_time ev - ev_time event\<bar> \<le> window_of cfg duration event / 2) evs))"

definition composite_score ::
  "Config \<Rightarrow> real \<Rightarrow> (string \<times> DetectionEvent list) list \<Rightarrow> DetectionEvent \<Rightarrow> real" where
  "composite_score cfg duration ebt event =
     sum_list (map (\<lambda>(t, evs). dict_get (weights cfg) t 0 * window_sum cfg duration event evs)
       (filter (\<lambda>(t, evs). 0 < dict_get (weights cfg) t 0) ebt))"

definition contributing_tags ::
  "Config \<Rightarrow> real \<Rightarrow> (string \<times> DetectionEvent list) list \<Rightarrow> DetectionEvent \<Rightarrow> string set" where
  "contributing_tags cfg duration ebt event =
     fst ` set (filter (\<lambda>(t, evs). 0 < dict_get (weights cfg) t 0
                                  \<and> 0 < window_sum cfg duration event evs) ebt)"

definition anchor_events ::
  "(string \<times> DetectionEvent list) list \<Rightarrow> (string \<times> DetectionEvent) list" where
  "anchor_events ebt =
     concat (map (\<lambda>tag. map (Pair tag) (dict_get ebt tag [])) (anchor_tags_of ebt))"

definition anchor_clip ::
  "string \<Rightarrow> string \<Rightarrow> real \<Rightarrow> (string \<times> DetectionEvent list) list \<Rightarrow> Config \<Rightarrow>
   string \<times> DetectionEvent \<Rightarrow> CandidateClip" where
  "anchor_clip path stem duration ebt cfg anchor =
     \<lparr> cand_src = path,
       cand_start = py_round (fst (window_bounds cfg duration (target_len_of cfg) (snd anchor))) 3,
       cand_end = py_round (snd (window_bounds cfg duration (target_len_of cfg) (snd anchor))) 3,
       cand_score = composite_score cfg duration ebt (snd anchor),
       cand_tags = insert (fst anchor) (contributing_tags cfg duration ebt (snd anchor)),
       cand_camera = Some (infer_camera_label stem) \<rparr>"

definition kept_anchor_events ::
  "Config \<Rightarrow> real \<Rightarrow> (string \<times> DetectionEvent list) list \<Rightarrow> (string \<times> DetectionEvent) list" where
  "kept_anchor_events cfg duration ebt =
     filter (\<lambda>anchor. 0 < composite_score cfg duration ebt (snd anchor)) (anchor_events ebt)"

definition by_score_descending :: "CandidateClip list \<Rightarrow> CandidateClip list" where
  "by_score_descending cs = sort_key (\<lambda>c. - cand_score c) cs"

text \<open>
  The two events of \<open>two_tag_events\<close>, and a source on which only motion was detected:
  under weights that give motion no weight its one anchor event scores 0.
\<close>

definition motion_event :: DetectionEvent where
  "motion_event = \<lparr> ev_time = 5, ev_score = 0.5, ev_tag = ''motion'' \<rparr>"

definition audio_event :: DetectionEvent where
  "audio_event = \<lparr> ev_time = 6, ev_score = 0.8, ev_tag = ''audio_peak'' \<rparr>"

definition motion_only_events :: "(string \<times> DetectionEvent list) list" where
  "motion_only_events = [(''motion'', [motion_event])]"

text \<open>
  The nodes of the first loop, by name: the base stream of a source and the split of that
  base into one branch per use, for video and for audio; the nodes that the loop appends
  for one source; the trim of one segment; and the nodes after the concatenation.
\<close>

definition video_base_node :: "int \<Rightarrow> node" where
  "video_base_node idx =
     \<lparr> n_inputs = [show_int idx @ '':v''], n_filter = ''setsar=1'',
       n_outputs = [''v'' @ show_int idx @ ''base''] \<rparr>"

definition video_split_node :: "int \<Rightarrow> nat \<Rightarrow> node" where
  "video_split_node idx count =
     \<lparr> n_inputs = [''v'' @ show_int idx @ ''base''], n_filter = ''split='' @ show_nat count,
       n_outputs = map (\<lambda>n. ''v'' @ show_int idx @ ''b'' @ show_nat n) [0..<count] \<rparr>"

definition audio_base_node :: "int \<Rightarrow> node" where
  "audio_base_node idx =
     \<lparr> n_inputs = [show_int idx @ '':a''],
       n_filter = ''aresample=48000,aformat=channel_layouts=stereo'',
       n_outputs = [''a'' @ show_int idx @ ''base''] \<rparr>"

definition audio_split_node :: "int \<Rightarrow> nat \<Rightarrow> node" where
  "audio_split_node idx count =
     \<lparr> n_inputs = [''a'' @ show_int idx @ ''base''], n_filter = ''asplit='' @ show_nat count,
       n_outputs = map (\<lambda>n. ''a'' @ show_int idx @ ''b'' @ show_nat n) [0..<count] \<rparr>"

definition source_nodes :: "seg_payload list \<Rightarrow> (int \<times> bool) list \<Rightarrow> int \<Rightarrow> node list" where
  "source_nodes segs audio_flags idx =
     (if usage_count segs idx = 0 then []
      else video_base_node idx
           # (if 1 < usage_count segs idx then [video_split_node idx (usage_count segs idx)] else [])
           @ (if dict_get audio_flags idx True
              then audio_base_node idx
                   # (if 1 < usage_count segs idx
                      then [audio_split_node idx (usage_count segs idx)] else [])
              else []))"

definition video_trim_node :: "string \<Rightarrow> nat \<Rightarrow> seg_payload \<Rightarrow> node" where
  "video_trim_node branch i seg =
     \<lparr> n_inputs = [branch],
       n_filter = ''trim=start='' @ fmt3 (p_in seg) @ '':end='' @ fmt3 (max (p_in seg) (p_out seg))
         @ '',setpts=PTS-STARTPTS'',
       n_outputs = [''vtrim'' @ show_nat i] \<rparr>"

definition audio_trim_node :: "string \<Rightarrow> nat \<Rightarrow> seg_payload \<Rightarrow> node" where
  "audio_trim_node branch i seg =
     \<lparr> n_inputs = [branch],
       n_filter = ''atrim=start='' @ fmt3 (p_in seg) @ '':end='' @ fmt3 (max (p_in seg) (p_out seg))
         @ '',asetpts=PTS-STARTPTS'',
       n_outputs = [''a'' @ show_nat i] \<rparr>"

definition closing_nodes :: "int option \<Rightarrow> string \<Rightarrow> real \<Rightarrow> bool \<Rightarrow> node list" where
  "closing_nodes logo_idx corner logo_safe_area loudnorm =
     (case logo_idx of
        Some l \<Rightarrow>
          [\<lparr> n_inputs = [''vcat'', show_int l],
             n_filter = ''overlay=x='' @ fst (logo_coordinates logo_safe_area corner)
               @ '':y='' @ snd (logo_coordinates logo_safe_area corner) @ '':format=auto'',
             n_outputs = [''vo''] \<rparr>]
      | None \<Rightarrow> [])
     @ [\<lparr> n_inputs = [case logo_idx of Some l \<Rightarrow> ''vo'' | None \<Rightarrow> ''vcat''],
           n_filter = ''format=yuv420p'', n_outputs = [''vout''] \<rparr>,
        (if loudnorm
         then \<lparr> n_inputs = [''acat''], n_filter = ''loudnorm=I=-14:TP=-1.0:LRA=11'',
                n_outputs = [''aout''] \<rparr>
         else \<lparr> n_inputs = [''acat''], n_filter = ''anorm=2'', n_outputs = [''aout''] \<rparr>)]"

text \<open>The branch label that the \<open>k\<close>-th use of a source reads.\<close>

definition video_branch :: "int \<Rightarrow> nat \<Rightarrow> nat \<Rightarrow> string" where
  "video_branch idx count k =
     (if 1 < count then n_outputs (video_split_node idx count) ! k
      else hd (n_outputs (video_base_node idx)))"

definition audio_branch :: "int \<Rightarrow> nat \<Rightarrow> nat \<Rightarrow> string" where
  "audio_branch idx count k =
     (if 1 < count then n_outputs (audio_split_node idx count) ! k
      else hd (n_outputs (audio_base_node idx)))"

section \<open>Properties of the EDL model\<close>

lemma Segment_duration_nonneg: "0 \<le> Segment_duration s"
  by (simp add: Segment_duration_def)

lemma sum_list_Segment_duration_nonneg: "0 \<le> sum_list (map Segment_duration ss)"
  by (induction ss) (simp_all add: Segment_duration_nonneg)

text \<open>
  C10. \<open>Segment.duration\<close> is \<open>max(0, end - start)\<close>, so it is never negative, also for
  a segment whose end precedes its start; \<open>edl_from_dict\<close> builds such a segment from a
  dict that has an \<open>in\<close> and neither \<open>out\<close> nor \<open>end\<close>, which default to 0.
  \<open>EDL.total_duration\<close>, the sum of these durations, is never negative.
\<close>

theorem Segment_duration_never_negative:
  "Segment_duration s = max 0 (seg_end s - seg_start s)
   \<and> 0 \<le> Segment_duration s
   \<and> 0 \<le> total_duration e
   \<and> seg_from_dict \<lparr> d_src = Some x, d_in = Some a, d_start = None, d_out = None,
         d_end = None, d_score = sc, d_tags = tg, d_cam = cm \<rparr>
       = Inr \<lparr> seg_src = x, seg_start = a, seg_end = 0, seg_score = get_or sc 0,
               seg_tags = get_or tg [], seg_camera = cm \<rparr>
   \<and> Segment_duration \<lparr> seg_src = x, seg_start = 5, seg_end = 0, seg_score = get_or sc 0,
         seg_tags = get_or tg [], seg_camera = cm \<rparr> = 0"
proof -
  have "0 \<le> total_duration e"
    unfolding total_duration_def by (rule sum_list_Segment_duration_nonneg)
  then show ?thesis
    by (simp add: Segment_duration_def seg_from_dict_def get_or_def)
qed

section \<open>Rounding\<close>

lemma round_half_even_bounds:
  "y - 1/2 \<le> of_int (round_half_even y)" "of_int (round_half_even y) \<le> y + 1/2"
  unfolding round_half_even_def Let_def by (auto; linarith)+

lemma round_half_even_of_int: "round_half_even (of_int k) = k"
  unfolding round_half_even_def Let_def by simp

lemma round_half_even_add_even:
  assumes "even k" shows "round_half_even (y + of_int k) = round_half_even y + k"
proof -
  have f: "\<lfloor>y + of_int k\<rfloor> = \<lfloor>y\<rfloor> + k" by simp
  show ?thesis
    unfolding round_half_even_def Let_def f using assms by simp
qed

lemma round_half_even_mono:
  assumes "x \<le> y" shows "round_half_even x \<le> round_half_even y"
proof -
  have fg: "\<lfloor>x\<rfloor> \<le> \<lfloor>y\<rfloor>" using assms by (rule floor_mono)
  show ?thesis
  proof (cases "\<lfloor>x\<rfloor> = \<lfloor>y\<rfloor>")
    case True
    with assms show ?thesis
      unfolding round_half_even_def Let_def by auto
  next
    case False
    with fg have lt: "\<lfloor>x\<rfloor> + 1 \<le> \<lfloor>y\<rfloor>" by simp
    have a: "round_half_even x \<le> \<lfloor>x\<rfloor> + 1"
      unfolding round_half_even_def Let_def by simp
    have b: "\<lfloor>y\<rfloor> \<le> round_half_even y"
      unfolding round_half_even_def Let_def by simp
    from a lt b show ?thesis by linarith
  qed
qed

lemma py_round3_error: "\<bar>py_round x 3 - x\<bar> \<le> 1/2000"
proof -
  define r where "r = real_of_int (round_half_even (x * 1000))"
  have "x * 1000 - 1/2 \<le> r" "r \<le> x * 1000 + 1/2"
    using round_half_even_bounds [of "x * 1000"] by (simp_all add: r_def)
  moreover have "py_round x 3 = r / 1000" by (simp add: py_round_def r_def)
  ultimately show ?thesis by linarith
qed

lemma py_round_mono: "x \<le> y \<Longrightarrow> py_round x n \<le> py_round y n"
  unfolding py_round_def
  by (intro divide_right_mono of_int_le_iff[THEN iffD2] round_half_even_mono mult_right_mono) simp_all

lemma py_round3_add_quarter: "py_round (x + 1/4) 3 = py_round x 3 + 1/4"
proof -
  have "(x + 1/4) * 10 ^ 3 = x * 10 ^ 3 + of_int 250" by (simp add: algebra_simps)
  then have "round_half_even ((x + 1/4) * 10 ^ 3) = round_half_even (x * 10 ^ 3) + 250"
    using round_half_even_add_even [of 250 "x * 10 ^ 3"] by simp
  then show ?thesis by (simp add: py_round_def add_divide_distrib)
qed

lemma py_round_idem: "py_round (py_round x n) n = py_round x n"
  by (simp add: py_round_def round_half_even_of_int)

section \<open>The selection loop\<close>

lemma select_loop_invariant:
  assumes "P st"
    and "\<And>s c s'. P s \<Longrightarrow> c \<in> set cands \<Longrightarrow>
           select_step cfg s c = Continue s' \<or> select_step cfg s c = Break s' \<Longrightarrow> P s'"
  shows "P (select_loop cfg st cands)"
  using assms
proof (induction cands arbitrary: st)
  case Nil
  then show ?case by simp
next
  case (Cons c cs)
  have step: "\<And>s'. select_step cfg st c = Continue s' \<or> select_step cfg st c = Break s' \<Longrightarrow> P s'"
    by (rule Cons.prems(2) [OF Cons.prems(1)]) simp_all
  have rest: "\<And>s. P s \<Longrightarrow> P (select_loop cfg s cs)"
  proof (rule Cons.IH)
    fix s a b s'
    assume "P a" "b \<in> set cs"
      "select_step cfg a b = Continue s' \<or> select_step cfg a b = Break s'"
    then show "P s'" using Cons.prems(2) [of a b s'] by simp
  qed
  show ?case
  proof (cases "select_step cfg st c")
    case (Continue s')
    then have "P s'" using step by blast
    then have "P (select_loop cfg s' cs)" by (rule rest)
    then show ?thesis using Continue by simp
  next
    case (Break s')
    then have "P s'" using step by blast
    then show ?thesis using Break by simp
  qed
qed

lemma select_step_rejected:
  "rejected cfg st cand \<Longrightarrow> select_step cfg st cand = Continue st"
  unfolding rejected_def select_step_def Let_def by presburger

lemma select_step_hard_stop:
  "\<not> rejected cfg st cand \<Longrightarrow>
   run_total st + CandidateClip_duration cand > max_duration cfg \<Longrightarrow>
   max_duration cfg - run_total st < clip_min cfg \<Longrightarrow>
   select_step cfg st cand = Break st"
  unfolding rejected_def select_step_def Let_def by presburger

lemma select_step_accepted:
  "\<not> rejected cfg st cand \<Longrightarrow>
   \<not> (run_total st + CandidateClip_duration cand > max_duration cfg
      \<and> max_duration cfg - run_total st < clip_min cfg) \<Longrightarrow>
   select_step cfg st cand =
     (if run_total (accept_segment st (camera_label cand) (make_segment cand (camera_label cand) (trimmed_end cfg st cand)))
           \<ge> max_duration cfg - 1/100
      then Break (accept_segment st (camera_label cand) (make_segment cand (camera_label cand) (trimmed_end cfg st cand)))
      else Continue (accept_segment st (camera_label cand) (make_segment cand (camera_label cand) (trimmed_end cfg st cand))))"
  unfolding rejected_def select_step_def trimmed_end_def Let_def by presburger

lemma select_step_cases:
  assumes "select_step cfg st cand = Continue st' \<or> select_step cfg st cand = Break st'"
  shows "st' = st \<or>
         (st' = accept_segment st (camera_label cand) (make_segment cand (camera_label cand) (trimmed_end cfg st cand))
          \<and> \<not> rejected cfg st cand
          \<and> (run_total st + CandidateClip_duration cand > max_duration cfg
               \<longrightarrow> clip_min cfg \<le> max_duration cfg - run_total st))"
proof (cases "rejected cfg st cand")
  case True
  then show ?thesis using assms select_step_rejected [of cfg st cand] by simp
next
  case nr: False
  show ?thesis
  proof (cases "run_total st + CandidateClip_duration cand > max_duration cfg
      \<and> max_duration cfg - run_total st < clip_min cfg")
    case True
    then show ?thesis using assms nr select_step_hard_stop [of cfg st cand] by simp
  next
    case False
    have "st' = accept_segment st (camera_label cand) (make_segment cand (camera_label cand) (trimmed_end cfg st cand))"
      using assms select_step_accepted [OF nr False] by (simp split: if_splits)
    then show ?thesis using nr False by auto
  qed
qed

lemma trimmed_end_le: "trimmed_end cfg st cand \<le> max (cand_start cand) (cand_end cand)"
  unfolding trimmed_end_def CandidateClip_duration_def by auto

lemma trimmed_len_le:
  "trimmed_end cfg st cand - cand_start cand \<le> CandidateClip_duration cand"
  unfolding trimmed_end_def CandidateClip_duration_def by auto

lemma rounded_duration_le: "max 0 (py_round e 3 - py_round s 3) \<le> max 0 (e - s + 1/1000)"
proof -
  have "\<bar>py_round e 3 - e\<bar> \<le> 1/2000" "\<bar>py_round s 3 - s\<bar> \<le> 1/2000"
    by (rule py_round3_error)+
  then show ?thesis by linarith
qed

lemma make_segment_duration_le:
  "Segment_duration (make_segment cand cam ce) \<le> max 0 (ce - cand_start cand + 1/1000)"
  unfolding make_segment_def Segment_duration_def
  using rounded_duration_le [of ce "cand_start cand"] by simp

subsection \<open>Total duration\<close>

lemma total_inv_step:
  assumes inv: "total_inv cfg st"
    and step: "select_step cfg st cand = Continue st' \<or> select_step cfg st cand = Break st'"
  shows "total_inv cfg st'"
proof -
  from select_step_cases [OF step] show ?thesis
  proof
    assume "st' = st" with inv show ?thesis by simp
  next
    assume acc: "st' = accept_segment st (camera_label cand) (make_segment cand (camera_label cand) (trimmed_end cfg st cand))
          \<and> \<not> rejected cfg st cand
          \<and> (run_total st + CandidateClip_duration cand > max_duration cfg
               \<longrightarrow> clip_min cfg \<le> max_duration cfg - run_total st)"
    define seg where "seg = make_segment cand (camera_label cand) (trimmed_end cfg st cand)"
    have sel: "selected st' = selected st @ [seg]"
      using acc unfolding seg_def accept_segment_def by simp
    have tot: "run_total st' = run_total st + Segment_duration seg"
      using acc unfolding seg_def accept_segment_def by simp
    have d: "Segment_duration seg \<le> max 0 (trimmed_end cfg st cand - cand_start cand + 1/1000)"
      unfolding seg_def by (rule make_segment_duration_le)
    have len: "run_total st + (trimmed_end cfg st cand - cand_start cand) \<le> max_duration cfg"
      unfolding trimmed_end_def CandidateClip_duration_def by auto
    have "run_total st' \<le> max_duration cfg + 1/1000"
      using tot d len inv unfolding total_inv_def by auto
    moreover have "run_total st' = sum_list (map Segment_duration (selected st'))"
      using tot sel inv unfolding total_inv_def by simp
    ultimately show ?thesis unfolding total_inv_def by simp
  qed
qed

lemma total_inv_loop:
  assumes "0 \<le> max_duration cfg"
  shows "total_inv cfg (select_loop cfg init_state cands)"
proof (rule select_loop_invariant)
  show "total_inv cfg init_state"
    using assms by (simp add: total_inv_def init_state_def)
qed (rule total_inv_step)

lemmas eval_defs =
  select_segments_def order_candidates_def jittered_def no_jitter_def select_step_def accept_segment_def make_segment_def
  init_state_def CandidateClip_duration_def camera_label_def Segment_duration_def
  total_duration_def py_round_def round_half_even_def Let_def clip_def base_config_def
  validate_def validate_weights_def DEFAULT_WEIGHTS_def VALID_DELIVERABLES_def

section \<open>Ordering\<close>

lemma map_snd_jitter:
  "map snd (map (\<lambda>(k, cand). (f k cand, cand)) (enumerate n xs)) = xs"
  by (induction xs arbitrary: n) simp_all

lemma set_order_candidates: "set (order_candidates cs rng) = set cs"
proof -
  have "set (order_candidates cs rng)
      = snd ` set (map (\<lambda>(k, cand). (cand_score cand + rng k * (1 / 10 ^ 6), cand))
          (enumerate 0 (sort_key (\<lambda>c. (- cand_score c, cand_src c, cand_start c, cand_end c)) cs)))"
    unfolding order_candidates_def jittered_def Let_def by simp
  also have "\<dots> = set (map snd (map (\<lambda>(k, cand). (cand_score cand + rng k * (1 / 10 ^ 6), cand))
          (enumerate 0 (sort_key (\<lambda>c. (- cand_score c, cand_src c, cand_start c, cand_end c)) cs))))"
    by (simp only: set_map)
  also have "\<dots> = set cs"
    by (simp only: map_snd_jitter set_sort)
  finally show ?thesis .
qed

lemma order_candidates_cong:
  assumes "\<forall>k < length cs. rng1 k = rng2 k"
  shows "order_candidates cs rng1 = order_candidates cs rng2"
proof -
  let ?ordered = "sort_key (\<lambda>c. (- cand_score c, cand_src c, cand_start c, cand_end c)) cs"
  have "map (\<lambda>(k, cand). (cand_score cand + rng1 k * (1 / 10 ^ 6), cand)) (enumerate 0 ?ordered)
      = map (\<lambda>(k, cand). (cand_score cand + rng2 k * (1 / 10 ^ 6), cand)) (enumerate 0 ?ordered)"
  proof (rule map_cong [OF refl])
    fix x assume "x \<in> set (enumerate 0 ?ordered)"
    then have "fst x < length cs" by (auto simp: in_set_enumerate_eq)
    with assms have "rng1 (fst x) = rng2 (fst x)" by simp
    then show "(case x of (k, cand) \<Rightarrow> (cand_score cand + rng1 k * (1 / 10 ^ 6), cand))
        = (case x of (k, cand) \<Rightarrow> (cand_score cand + rng2 k * (1 / 10 ^ 6), cand))"
      by (cases x) simp
  qed
  then show ?thesis unfolding order_candidates_def jittered_def Let_def by (simp only:)
qed

lemma order_candidates_Nil: "order_candidates [] rng = []"
  by (simp add: order_candidates_def jittered_def)

lemma segments_select_segments:
  "segments (fst (select_segments Random cbs cfg))
     = selected (select_loop cfg init_state
         (order_candidates (concat (map snd cbs)) (Random (seed cfg))))"
proof (cases "concat (map snd cbs) = []")
  case True
  have "segments (fst (select_segments Random cbs cfg)) = []"
    unfolding select_segments_def Let_def True by (simp add: empty_edl_def)
  moreover have "selected (select_loop cfg init_state
         (order_candidates (concat (map snd cbs)) (Random (seed cfg)))) = []"
    unfolding True order_candidates_Nil by (simp add: init_state_def)
  ultimately show ?thesis by simp
next
  case False
  then show ?thesis
    unfolding select_segments_def Let_def by (simp only: if_False fst_conv EDL.simps)
qed

section \<open>Per-camera share\<close>

lemma CandidateClip_duration_nonneg: "0 \<le> CandidateClip_duration c"
  by (simp add: CandidateClip_duration_def)

lemma make_segment_duration_loose:
  "Segment_duration (make_segment cand cam (trimmed_end cfg st cand))
     \<le> CandidateClip_duration cand + 1/1000"
  using make_segment_duration_le [of cand cam "trimmed_end cfg st cand"]
    trimmed_len_le [of cfg st cand] CandidateClip_duration_nonneg [of cand]
  by linarith

lemma py_round_min: "py_round (min a b) n = min (py_round a n) (py_round b n)"
  using py_round_mono [of a b n] py_round_mono [of b a n] by (cases "a \<le> b") (simp_all add: min_def)

lemma py_round_max: "py_round (max a b) n = max (py_round a n) (py_round b n)"
  using py_round_mono [of a b n] py_round_mono [of b a n] by (cases "a \<le> b") (simp_all add: max_def)

lemma make_segment_duration_grid:
  assumes "on_grid cand"
  shows "Segment_duration (make_segment cand cam (trimmed_end cfg st cand))
     \<le> CandidateClip_duration cand"
proof -
  have "py_round (trimmed_end cfg st cand) 3 \<le> py_round (max (cand_start cand) (cand_end cand)) 3"
    by (rule py_round_mono) (rule trimmed_end_le)
  also have "\<dots> = max (cand_start cand) (cand_end cand)"
    using assms by (simp add: py_round_max on_grid_def)
  finally show ?thesis
    using assms by (simp add: Segment_duration_def make_segment_def on_grid_def
        CandidateClip_duration_def)
qed

lemma camera_total_snoc:
  "camera_total (segs @ [seg]) c
     = camera_total segs c + (if seg_camera seg = Some c then Segment_duration seg else 0)"
  by (simp add: camera_total_def)

lemma usage_inv_step:
  assumes inv: "usage_inv cfg slack st"
    and step: "select_step cfg st cand = Continue st' \<or> select_step cfg st cand = Break st'"
    and dur: "Segment_duration (make_segment cand (camera_label cand) (trimmed_end cfg st cand))
                \<le> CandidateClip_duration cand + slack"
  shows "usage_inv cfg slack st'"
proof -
  from select_step_cases [OF step] show ?thesis
  proof
    assume "st' = st" with inv show ?thesis by simp
  next
    assume acc: "st' = accept_segment st (camera_label cand)
                   (make_segment cand (camera_label cand) (trimmed_end cfg st cand))
          \<and> \<not> rejected cfg st cand
          \<and> (run_total st + CandidateClip_duration cand > max_duration cfg
               \<longrightarrow> clip_min cfg \<le> max_duration cfg - run_total st)"
    define cam where "cam = camera_label cand"
    define seg where "seg = make_segment cand cam (trimmed_end cfg st cand)"
    have st': "st' = accept_segment st cam seg" using acc by (simp add: cam_def seg_def)
    have segcam: "seg_camera seg = Some cam" by (simp add: seg_def make_segment_def)
    have ok: "camera_usage st cam + CandidateClip_duration cand \<le> camera_share cfg + 1 / 10 ^ 6"
      using acc unfolding rejected_def camera_share_def cam_def by auto
    have d: "Segment_duration seg \<le> CandidateClip_duration cand + slack"
      using dur by (simp add: seg_def cam_def)
    show ?thesis
      unfolding usage_inv_def
    proof (intro allI conjI)
      fix c
      show "camera_usage st' c = camera_total (selected st') c"
        using inv segcam unfolding usage_inv_def st' accept_segment_def
        by (simp add: camera_total_snoc)
      show "camera_usage st' c \<le> camera_share cfg + 1 / 10 ^ 6 + slack"
      proof (cases "c = cam")
        case True
        then have "camera_usage st' c = camera_usage st cam + Segment_duration seg"
          unfolding st' accept_segment_def by simp
        with ok d show ?thesis by linarith
      next
        case False
        then have "camera_usage st' c = camera_usage st c"
          unfolding st' accept_segment_def by simp
        moreover have "camera_usage st c \<le> camera_share cfg + 1 / 10 ^ 6 + slack"
          using inv unfolding usage_inv_def by blast
        ultimately show ?thesis by linarith
      qed
    qed
  qed
qed

lemma usage_inv_init:
  "0 \<le> camera_share cfg + 1 / 10 ^ 6 + slack \<Longrightarrow> usage_inv cfg slack init_state"
  by (simp add: usage_inv_def init_state_def camera_total_def)

lemma validate_ratio:
  "validate cfg = Inr () \<Longrightarrow> 0 < max_per_cam_ratio (diversity cfg) \<and> max_per_cam_ratio (diversity cfg) \<le> 1"
  unfolding validate_def by (simp split: sum.splits if_splits)

lemma validate_clip:
  "validate cfg = Inr () \<Longrightarrow> 0 < clip_min cfg \<and> clip_min cfg \<le> clip_max cfg"
  unfolding validate_def by (simp split: sum.splits if_splits)

lemma camera_share_nonneg:
  "validate cfg = Inr () \<Longrightarrow> 0 \<le> max_duration cfg \<Longrightarrow> 0 \<le> camera_share cfg"
  using validate_ratio [of cfg] by (simp add: camera_share_def)

section \<open>Overlap\<close>

lemma passes_overlap_check_iff:
  "passes_overlap_check cand sel tol \<longleftrightarrow>
     (\<forall>seg \<in> set sel. seg_src seg = cand_src cand \<longrightarrow>
        min (seg_end seg) (cand_end cand) - max (seg_start seg) (cand_start cand) \<le> tol)"
  by (induction sel) auto

lemma rounded_overlap_le:
  assumes g1: "py_round ss 3 = ss" and g2: "py_round se 3 = se"
    and ov: "min se ce - max ss cs \<le> 1/4" and te: "te \<le> max cs ce"
  shows "min se (py_round te 3) - max ss (py_round cs 3) \<le> 1/4"
proof (cases "cs \<le> ce")
  case True
  then have "te \<le> ce" using te by simp
  then have t: "py_round te 3 \<le> py_round ce 3" by (rule py_round_mono)
  have "min se ce \<le> max ss cs + 1/4" using ov by simp
  then have "py_round (min se ce) 3 \<le> py_round (max ss cs + 1/4) 3" by (rule py_round_mono)
  also have "\<dots> = py_round (max ss cs) 3 + 1/4" by (rule py_round3_add_quarter)
  finally have "min se (py_round ce 3) \<le> max ss (py_round cs 3) + 1/4"
    by (simp only: py_round_min py_round_max g1 g2)
  with t show ?thesis by linarith
next
  case False
  then have "te \<le> cs" using te by simp
  then have "py_round te 3 \<le> py_round cs 3" by (rule py_round_mono)
  then show ?thesis by linarith
qed

lemma overlap_inv_step:
  assumes inv: "overlap_inv st"
    and step: "select_step cfg st cand = Continue st' \<or> select_step cfg st cand = Break st'"
  shows "overlap_inv st'"
proof -
  from select_step_cases [OF step] show ?thesis
  proof
    assume "st' = st" with inv show ?thesis by simp
  next
    assume acc: "st' = accept_segment st (camera_label cand)
                   (make_segment cand (camera_label cand) (trimmed_end cfg st cand))
          \<and> \<not> rejected cfg st cand
          \<and> (run_total st + CandidateClip_duration cand > max_duration cfg
               \<longrightarrow> clip_min cfg \<le> max_duration cfg - run_total st)"
    define seg where "seg = make_segment cand (camera_label cand) (trimmed_end cfg st cand)"
    have sel: "selected st' = selected st @ [seg]"
      using acc by (simp add: seg_def accept_segment_def)
    have seg_fields: "seg_src seg = cand_src cand"
      "seg_start seg = py_round (cand_start cand) 3"
      "seg_end seg = py_round (trimmed_end cfg st cand) 3"
      by (simp_all add: seg_def make_segment_def)
    have passes: "passes_overlap_check cand (selected st) (1/4)"
      using acc unfolding rejected_def by auto
    have new: "overlap s seg \<le> 1/4" if "s \<in> set (selected st)" "seg_src s = seg_src seg" for s
    proof -
      have g: "py_round (seg_start s) 3 = seg_start s" "py_round (seg_end s) 3 = seg_end s"
        using inv that(1) unfolding overlap_inv_def by auto
      have "min (seg_end s) (cand_end cand) - max (seg_start s) (cand_start cand) \<le> 1/4"
        using passes that unfolding passes_overlap_check_iff seg_fields by blast
      then show ?thesis
        unfolding overlap_def seg_fields
        by (rule rounded_overlap_le [OF g]) (rule trimmed_end_le)
    qed
    have grid: "\<forall>s \<in> set (selected st').
        py_round (seg_start s) 3 = seg_start s \<and> py_round (seg_end s) 3 = seg_end s"
      using inv unfolding overlap_inv_def sel by (auto simp: seg_fields py_round_idem)
    have pairs: "overlap (selected st' ! i) (selected st' ! j) \<le> 1/4"
      if "i < j" "j < length (selected st')" "seg_src (selected st' ! i) = seg_src (selected st' ! j)"
      for i j
    proof (cases "j < length (selected st)")
      case True
      then have "selected st' ! i = selected st ! i" "selected st' ! j = selected st ! j"
        using that(1) unfolding sel by (simp_all add: nth_append)
      then show ?thesis using inv that True unfolding overlap_inv_def by simp
    next
      case False
      then have j: "j = length (selected st)" using that(2) unfolding sel by simp
      then have i: "i < length (selected st)" using that(1) by simp
      have "selected st' ! j = seg" unfolding sel j by simp
      moreover have "selected st' ! i = selected st ! i" using i unfolding sel by (simp add: nth_append)
      moreover have "selected st ! i \<in> set (selected st)" using i by simp
      ultimately show ?thesis using new [of "selected st ! i"] that(3) by simp
    qed
    show ?thesis unfolding overlap_inv_def using grid pairs by blast
  qed
qed

lemma overlap_inv_init: "overlap_inv init_state"
  by (simp add: overlap_inv_def init_state_def)

section \<open>The duration cap\<close>

lemma select_segments_run_total:
  assumes "0 \<le> max_duration cfg"
  shows "total_duration (fst (select_segments Random cbs cfg)) \<le> max_duration cfg + 1/1000"
proof -
  have "total_inv cfg (select_loop cfg init_state
         (order_candidates (concat (map snd cbs)) (Random (seed cfg))))"
    using assms by (rule total_inv_loop)
  then show ?thesis
    unfolding total_inv_def total_duration_def segments_select_segments by simp
qed

lemma duration_cap_mechanism:
  assumes nr: "\<not> rejected cfg st cand"
    and over: "run_total st + CandidateClip_duration cand > max_duration cfg"
  shows "(max_duration cfg - run_total st < clip_min cfg \<longrightarrow> select_step cfg st cand = Break st)
       \<and> (clip_min cfg \<le> max_duration cfg - run_total st \<longrightarrow>
            (\<exists>st'. st' = accept_segment st (camera_label cand)
                      (make_segment cand (camera_label cand)
                        (cand_start cand + min (CandidateClip_duration cand)
                           (min (max_duration cfg - run_total st) (clip_max cfg))))
               \<and> (select_step cfg st cand = Break st' \<or> select_step cfg st cand = Continue st')))"
proof (intro conjI impI)
  assume "max_duration cfg - run_total st < clip_min cfg"
  with nr over show "select_step cfg st cand = Break st" by (rule select_step_hard_stop)
next
  assume "clip_min cfg \<le> max_duration cfg - run_total st"
  then have "\<not> (run_total st + CandidateClip_duration cand > max_duration cfg
      \<and> max_duration cfg - run_total st < clip_min cfg)" by simp
  from select_step_accepted [OF nr this]
  have "select_step cfg st cand =
     (if run_total (accept_segment st (camera_label cand)
            (make_segment cand (camera_label cand) (trimmed_end cfg st cand)))
           \<ge> max_duration cfg - 1/100
      then Break (accept_segment st (camera_label cand)
            (make_segment cand (camera_label cand) (trimmed_end cfg st cand)))
      else Continue (accept_segment st (camera_label cand)
            (make_segment cand (camera_label cand) (trimmed_end cfg st cand))))" .
  moreover have "trimmed_end cfg st cand = cand_start cand + min (CandidateClip_duration cand)
                           (min (max_duration cfg - run_total st) (clip_max cfg))"
    using over by (simp add: trimmed_end_def)
  ultimately show "\<exists>st'. st' = accept_segment st (camera_label cand)
                      (make_segment cand (camera_label cand)
                        (cand_start cand + min (CandidateClip_duration cand)
                           (min (max_duration cfg - run_total st) (clip_max cfg))))
               \<and> (select_step cfg st cand = Break st' \<or> select_step cfg st cand = Continue st')"
    by (simp split: if_splits)
qed

text \<open>
  C1 (as amended). For a configuration with \<open>max_duration \<ge> 0\<close>, the total duration of
  the selected segments is at most \<open>max_duration + 0.001\<close>, hence within 1 percent of
  \<open>max_duration\<close> when \<open>max_duration \<ge> 0.1\<close>: a segment's bounds are rounded to 3
  decimals after the cap was applied to the unrounded duration. When a candidate that no
  check rejected would exceed \<open>max_duration\<close>, the loop stops if the remaining budget is
  below \<open>clip_min\<close>, and otherwise the candidate's end is set so that its duration is
  \<open>min(duration, remaining, clip_max)\<close>.
\<close>

theorem select_segments_duration_cap:
  assumes "0 \<le> max_duration cfg"
  shows "total_duration (fst (select_segments Random cbs cfg)) \<le> max_duration cfg + 1/1000
     \<and> (1/10 \<le> max_duration cfg \<longrightarrow>
          total_duration (fst (select_segments Random cbs cfg)) \<le> max_duration cfg * (1 + 1/100))
     \<and> (\<forall>st cand. \<not> rejected cfg st cand \<longrightarrow>
            run_total st + CandidateClip_duration cand > max_duration cfg \<longrightarrow>
            (max_duration cfg - run_total st < clip_min cfg \<longrightarrow> select_step cfg st cand = Break st)
          \<and> (clip_min cfg \<le> max_duration cfg - run_total st \<longrightarrow>
               (\<exists>st'. st' = accept_segment st (camera_label cand)
                         (make_segment cand (camera_label cand)
                           (cand_start cand + min (CandidateClip_duration cand)
                              (min (max_duration cfg - run_total st) (clip_max cfg))))
                  \<and> (select_step cfg st cand = Break st' \<or> select_step cfg st cand = Continue st'))))"
proof -
  have a: "total_duration (fst (select_segments Random cbs cfg)) \<le> max_duration cfg + 1/1000"
    using assms by (rule select_segments_run_total)
  have b: "1/10 \<le> max_duration cfg \<longrightarrow>
          total_duration (fst (select_segments Random cbs cfg)) \<le> max_duration cfg * (1 + 1/100)"
    using a by (simp add: algebra_simps)
  show ?thesis
    using a b duration_cap_mechanism [of cfg] by blast
qed

theorem select_segments_duration_cap_witness:
  "0 \<le> max_duration trim_config
   \<and> 1/10 \<le> max_duration trim_config
   \<and> total_duration (fst (select_segments no_jitter duration_cap_clips trim_config)) = 5
   \<and> total_duration (fst (select_segments no_jitter duration_cap_clips trim_config))
        \<le> max_duration trim_config * (1 + 1/100)
   \<and> \<not> rejected trim_config after_first_clip (clip ''camB.mp4'' 0 3 0.7 ''audio_peak'' ''camB'')
   \<and> run_total after_first_clip
        + CandidateClip_duration (clip ''camB.mp4'' 0 3 0.7 ''audio_peak'' ''camB'')
        > max_duration trim_config
   \<and> clip_min trim_config \<le> max_duration trim_config - run_total after_first_clip
   \<and> select_step trim_config after_first_clip (clip ''camB.mp4'' 0 3 0.7 ''audio_peak'' ''camB'')
       = Break (accept_segment after_first_clip ''camB''
                 (make_segment (clip ''camB.mp4'' 0 3 0.7 ''audio_peak'' ''camB'') ''camB'' 2))"
proof -
  have h: "0 \<le> max_duration trim_config" by (simp add: trim_config_def base_config_def)
  have t: "1/10 \<le> max_duration trim_config \<longrightarrow>
     total_duration (fst (select_segments no_jitter duration_cap_clips trim_config))
       \<le> max_duration trim_config * (1 + 1/100)"
    using select_segments_duration_cap [OF h, of no_jitter duration_cap_clips] by blast
  have v: "total_duration (fst (select_segments no_jitter duration_cap_clips trim_config)) = 5"
    by (simp add: eval_defs trim_config_def duration_cap_clips_def)
  have r: "\<not> rejected trim_config after_first_clip (clip ''camB.mp4'' 0 3 0.7 ''audio_peak'' ''camB'')"
    by (simp add: rejected_def after_first_clip_def eval_defs trim_config_def)
  have s: "select_step trim_config after_first_clip (clip ''camB.mp4'' 0 3 0.7 ''audio_peak'' ''camB'')
       = Break (accept_segment after_first_clip ''camB''
                 (make_segment (clip ''camB.mp4'' 0 3 0.7 ''audio_peak'' ''camB'') ''camB'' 2))"
    by (simp add: after_first_clip_def eval_defs trim_config_def)
  have o: "run_total after_first_clip
        + CandidateClip_duration (clip ''camB.mp4'' 0 3 0.7 ''audio_peak'' ''camB'')
        > max_duration trim_config"
    "clip_min trim_config \<le> max_duration trim_config - run_total after_first_clip"
    by (simp_all add: after_first_clip_def eval_defs trim_config_def)
  have m: "1/10 \<le> max_duration trim_config" by (simp add: trim_config_def base_config_def)
  show ?thesis using h m t v r s o by blast
qed

theorem duration_cap_counterexample:
  "validate short_reel_config = Inr ()
   \<and> 0 < max_duration short_reel_config
   \<and> total_duration (fst (select_segments no_jitter short_reel_clips short_reel_config)) = 11/1000
   \<and> \<not> total_duration (fst (select_segments no_jitter short_reel_clips short_reel_config))
        \<le> max_duration short_reel_config * (1 + 1/100)"
  by (simp add: eval_defs short_reel_config_def short_reel_clips_def)

section \<open>The per-camera share of a selection\<close>

lemma usage_inv_loop:
  assumes "0 \<le> camera_share cfg + 1 / 10 ^ 6 + slack"
    and "\<And>st cand. cand \<in> set cands \<Longrightarrow>
           Segment_duration (make_segment cand (camera_label cand) (trimmed_end cfg st cand))
             \<le> CandidateClip_duration cand + slack"
  shows "usage_inv cfg slack (select_loop cfg init_state cands)"
proof (rule select_loop_invariant)
  show "usage_inv cfg slack init_state" using assms(1) by (rule usage_inv_init)
next
  fix s c s'
  assume "usage_inv cfg slack s" "c \<in> set cands"
    "select_step cfg s c = Continue s' \<or> select_step cfg s c = Break s'"
  then show "usage_inv cfg slack s'"
    using assms(2) [of c s] by (rule_tac usage_inv_step) 
qed

lemma camera_total_bound:
  assumes "0 \<le> camera_share cfg + 1 / 10 ^ 6 + slack"
    and "\<And>st cand. cand \<in> set (concat (map snd cbs)) \<Longrightarrow>
           Segment_duration (make_segment cand (camera_label cand) (trimmed_end cfg st cand))
             \<le> CandidateClip_duration cand + slack"
  shows "camera_total (segments (fst (select_segments Random cbs cfg))) c
           \<le> camera_share cfg + 1 / 10 ^ 6 + slack"
proof -
  have "usage_inv cfg slack (select_loop cfg init_state
         (order_candidates (concat (map snd cbs)) (Random (seed cfg))))"
    using assms by (intro usage_inv_loop) (simp_all add: set_order_candidates)
  then show ?thesis
    unfolding usage_inv_def segments_select_segments by metis
qed

lemma share_rejects:
  assumes "camera_usage st (camera_label cand) + CandidateClip_duration cand
             > max_per_cam_ratio (diversity cfg) * max_duration cfg + 1 / 10 ^ 6"
  shows "select_step cfg st cand = Continue st"
  using assms by (intro select_step_rejected) (simp add: rejected_def)

text \<open>
  C3 (as amended). For a valid configuration with \<open>max_duration \<ge> 0\<close> and every camera
  label, the durations of the selected segments of that camera sum to at most
  \<open>max_per_cam_ratio * max_duration + 1e-6 + 0.001\<close>: the share is checked against the
  candidate's own duration, and the segment's bounds are rounded to 3 decimals afterwards.
  When every candidate's start and end is a multiple of 0.001 already, the sum is at most
  \<open>max_per_cam_ratio * max_duration + 1e-6\<close>. A candidate whose duration would take its
  camera's usage above \<open>max_per_cam_ratio * max_duration + 1e-6\<close> is rejected.
\<close>

theorem select_segments_camera_share:
  assumes "validate cfg = Inr ()" and "0 \<le> max_duration cfg"
  shows "(\<forall>c. camera_total (segments (fst (select_segments Random cbs cfg))) c
            \<le> max_per_cam_ratio (diversity cfg) * max_duration cfg + 1 / 10 ^ 6 + 1/1000)
     \<and> ((\<forall>cand \<in> set (concat (map snd cbs)). on_grid cand) \<longrightarrow>
          (\<forall>c. camera_total (segments (fst (select_segments Random cbs cfg))) c
            \<le> max_per_cam_ratio (diversity cfg) * max_duration cfg + 1 / 10 ^ 6))
     \<and> (\<forall>st cand. camera_usage st (camera_label cand) + CandidateClip_duration cand
                     > max_per_cam_ratio (diversity cfg) * max_duration cfg + 1 / 10 ^ 6
            \<longrightarrow> select_step cfg st cand = Continue st)"
proof (intro conjI allI impI)
  have nn: "0 \<le> camera_share cfg" using assms by (rule camera_share_nonneg)
  fix c
  have "camera_total (segments (fst (select_segments Random cbs cfg))) c
          \<le> camera_share cfg + 1 / 10 ^ 6 + 1/1000"
    using nn by (intro camera_total_bound) (simp_all add: make_segment_duration_loose)
  then show "camera_total (segments (fst (select_segments Random cbs cfg))) c
            \<le> max_per_cam_ratio (diversity cfg) * max_duration cfg + 1 / 10 ^ 6 + 1/1000"
    by (simp add: camera_share_def)
next
  have nn: "0 \<le> camera_share cfg" using assms by (rule camera_share_nonneg)
  fix c
  assume grid: "\<forall>cand \<in> set (concat (map snd cbs)). on_grid cand"
  have "camera_total (segments (fst (select_segments Random cbs cfg))) c
          \<le> camera_share cfg + 1 / 10 ^ 6 + 0"
  proof (rule camera_total_bound)
    show "0 \<le> camera_share cfg + 1 / 10 ^ 6 + 0" using nn by simp
  next
    fix st :: sel_state and cand :: CandidateClip
    assume "cand \<in> set (concat (map snd cbs))"
    then have "on_grid cand" using grid by blast
    then show "Segment_duration (make_segment cand (camera_label cand) (trimmed_end cfg st cand))
             \<le> CandidateClip_duration cand + 0"
      using make_segment_duration_grid [of cand "camera_label cand" cfg st] by simp
  qed
  then show "camera_total (segments (fst (select_segments Random cbs cfg))) c
            \<le> max_per_cam_ratio (diversity cfg) * max_duration cfg + 1 / 10 ^ 6"
    by (simp add: camera_share_def)
next
  fix st :: sel_state and cand :: CandidateClip
  assume "camera_usage st (camera_label cand) + CandidateClip_duration cand
                     > max_per_cam_ratio (diversity cfg) * max_duration cfg + 1 / 10 ^ 6"
  then show "select_step cfg st cand = Continue st" by (rule share_rejects)
qed

lemma diversity_clips_on_grid: "cand \<in> set (concat (map snd diversity_clips)) \<Longrightarrow> on_grid cand"
  by (auto simp: diversity_clips_def on_grid_def clip_def py_round_def round_half_even_def)

theorem select_segments_camera_share_witness:
  "validate diversity_config = Inr ()
   \<and> 0 \<le> max_duration diversity_config
   \<and> on_grid (clip ''camA.mp4'' 0 4 0.8 ''motion'' ''camA'')
   \<and> on_grid (clip ''camA.mp4'' 4.5 8.5 0.7 ''motion'' ''camA'')
   \<and> on_grid (clip ''camB.mp4'' 0 3 0.6 ''faces'' ''camB'')
   \<and> camera_total (segments (fst (select_segments no_jitter diversity_clips diversity_config))) ''camA'' = 4
   \<and> camera_total (segments (fst (select_segments no_jitter diversity_clips diversity_config))) ''camA''
        \<le> max_per_cam_ratio (diversity diversity_config) * max_duration diversity_config + 1 / 10 ^ 6
   \<and> camera_usage after_first_clip (camera_label (clip ''camA.mp4'' 4.5 8.5 0.7 ''motion'' ''camA''))
        + CandidateClip_duration (clip ''camA.mp4'' 4.5 8.5 0.7 ''motion'' ''camA'')
        > max_per_cam_ratio (diversity diversity_config) * max_duration diversity_config + 1 / 10 ^ 6
   \<and> select_step diversity_config after_first_clip (clip ''camA.mp4'' 4.5 8.5 0.7 ''motion'' ''camA'')
        = Continue after_first_clip"
proof -
  have v: "validate diversity_config = Inr ()" "0 \<le> max_duration diversity_config"
    by (simp_all add: diversity_config_def eval_defs)
  note t = select_segments_camera_share [OF v, of no_jitter diversity_clips]
  have g: "\<forall>cand \<in> set (concat (map snd diversity_clips)). on_grid cand"
    using diversity_clips_on_grid by blast
  have b: "camera_total (segments (fst (select_segments no_jitter diversity_clips diversity_config))) ''camA''
        \<le> max_per_cam_ratio (diversity diversity_config) * max_duration diversity_config + 1 / 10 ^ 6"
    using t g by blast
  have e: "camera_total (segments (fst (select_segments no_jitter diversity_clips diversity_config))) ''camA'' = 4"
    by (simp add: camera_total_def diversity_config_def diversity_clips_def eval_defs)
  have u: "camera_usage after_first_clip (camera_label (clip ''camA.mp4'' 4.5 8.5 0.7 ''motion'' ''camA''))
        + CandidateClip_duration (clip ''camA.mp4'' 4.5 8.5 0.7 ''motion'' ''camA'')
        > max_per_cam_ratio (diversity diversity_config) * max_duration diversity_config + 1 / 10 ^ 6"
    by (simp add: after_first_clip_def diversity_config_def eval_defs)
  have s: "select_step diversity_config after_first_clip (clip ''camA.mp4'' 4.5 8.5 0.7 ''motion'' ''camA'')
        = Continue after_first_clip"
    using t u by blast
  have og: "on_grid (clip ''camA.mp4'' 0 4 0.8 ''motion'' ''camA'')"
    "on_grid (clip ''camA.mp4'' 4.5 8.5 0.7 ''motion'' ''camA'')"
    "on_grid (clip ''camB.mp4'' 0 3 0.6 ''faces'' ''camB'')"
    by (rule diversity_clips_on_grid, simp add: diversity_clips_def)+
  show ?thesis using v b e u s og by blast
qed

theorem camera_share_counterexample:
  "validate off_grid_config = Inr ()
   \<and> camera_total (segments (fst (select_segments no_jitter off_grid_clips off_grid_config))) ''camA''
       = 4001/1000
   \<and> max_per_cam_ratio (diversity off_grid_config) * max_duration off_grid_config + 1 / 10 ^ 6
       = 4000001/1000000
   \<and> \<not> camera_total (segments (fst (select_segments no_jitter off_grid_clips off_grid_config))) ''camA''
         \<le> max_per_cam_ratio (diversity off_grid_config) * max_duration off_grid_config + 1 / 10 ^ 6"
  by (simp add: camera_total_def off_grid_config_def off_grid_clips_def diversity_config_def eval_defs)

section \<open>No material overlap in a selection\<close>

lemma overlap_inv_loop: "overlap_inv (select_loop cfg init_state cands)"
  by (rule select_loop_invariant [where P = overlap_inv, OF overlap_inv_init]) (rule overlap_inv_step)

lemma overlap_rejects:
  assumes "\<exists>seg \<in> set (selected st). seg_src seg = cand_src cand
             \<and> min (seg_end seg) (cand_end cand) - max (seg_start seg) (cand_start cand) > 1/4"
  shows "select_step cfg st cand = Continue st"
proof -
  have "\<not> passes_overlap_check cand (selected st) (1/4)"
    using assms unfolding passes_overlap_check_iff by force
  then show ?thesis by (intro select_step_rejected) (simp add: rejected_def)
qed

text \<open>
  C4. Any two distinct segments of the EDL produced by \<open>select_segments\<close> that have the
  same source intersect in at most 0.25 seconds: a candidate whose span overlaps an
  accepted segment of its source by more than 0.25 seconds is rejected.
\<close>

theorem select_segments_no_material_overlap:
  "(\<forall>i j. i < j \<longrightarrow> j < length (segments (fst (select_segments Random cbs cfg))) \<longrightarrow>
       seg_src (segments (fst (select_segments Random cbs cfg)) ! i)
         = seg_src (segments (fst (select_segments Random cbs cfg)) ! j) \<longrightarrow>
       max 0 (overlap (segments (fst (select_segments Random cbs cfg)) ! i)
                      (segments (fst (select_segments Random cbs cfg)) ! j)) \<le> 1/4)
   \<and> (\<forall>st cand.
         (\<exists>seg \<in> set (selected st). seg_src seg = cand_src cand
             \<and> min (seg_end seg) (cand_end cand) - max (seg_start seg) (cand_start cand) > 1/4)
         \<longrightarrow> select_step cfg st cand = Continue st)"
proof -
  have "overlap_inv (select_loop cfg init_state
         (order_candidates (concat (map snd cbs)) (Random (seed cfg))))"
    by (rule overlap_inv_loop)
  then have a: "\<forall>i j. i < j \<longrightarrow> j < length (segments (fst (select_segments Random cbs cfg))) \<longrightarrow>
       seg_src (segments (fst (select_segments Random cbs cfg)) ! i)
         = seg_src (segments (fst (select_segments Random cbs cfg)) ! j) \<longrightarrow>
       overlap (segments (fst (select_segments Random cbs cfg)) ! i)
                      (segments (fst (select_segments Random cbs cfg)) ! j) \<le> 1/4"
    unfolding overlap_inv_def segments_select_segments by blast
  have b: "max 0 x \<le> 1/4" if "x \<le> 1/4" for x :: real using that by simp
  show ?thesis using a b overlap_rejects [of _ _ cfg] by blast
qed

theorem select_segments_no_material_overlap_witness:
  "segments (fst (select_segments no_jitter overlap_clips base_config))
     = [make_segment (clip ''camA.mp4'' 0 3 0.9 ''audio_peak'' ''camA'') ''camA'' 3,
        make_segment (clip ''camA.mp4'' 2.8 5.6 0.7 ''motion'' ''camA'') ''camA'' 5.6]
   \<and> (0::nat) < 1
   \<and> 1 < length (segments (fst (select_segments no_jitter overlap_clips base_config)))
   \<and> seg_src (segments (fst (select_segments no_jitter overlap_clips base_config)) ! 0)
       = seg_src (segments (fst (select_segments no_jitter overlap_clips base_config)) ! 1)
   \<and> overlap (segments (fst (select_segments no_jitter overlap_clips base_config)) ! 0)
              (segments (fst (select_segments no_jitter overlap_clips base_config)) ! 1) = 1/5
   \<and> max 0 (overlap (segments (fst (select_segments no_jitter overlap_clips base_config)) ! 0)
                     (segments (fst (select_segments no_jitter overlap_clips base_config)) ! 1))
        \<le> 1/4
   \<and> select_step base_config after_high_clip (clip ''camA.mp4'' 0.1 3.1 0.4 ''audio_peak'' ''camA'')
        = Continue after_high_clip"
proof -
  note t = select_segments_no_material_overlap [of no_jitter overlap_clips base_config]
  have e: "segments (fst (select_segments no_jitter overlap_clips base_config))
     = [make_segment (clip ''camA.mp4'' 0 3 0.9 ''audio_peak'' ''camA'') ''camA'' 3,
        make_segment (clip ''camA.mp4'' 2.8 5.6 0.7 ''motion'' ''camA'') ''camA'' 5.6]"
    by (simp add: overlap_clips_def eval_defs)
  have l: "1 < length (segments (fst (select_segments no_jitter overlap_clips base_config)))"
    "seg_src (segments (fst (select_segments no_jitter overlap_clips base_config)) ! 0)
       = seg_src (segments (fst (select_segments no_jitter overlap_clips base_config)) ! 1)"
    "overlap (segments (fst (select_segments no_jitter overlap_clips base_config)) ! 0)
              (segments (fst (select_segments no_jitter overlap_clips base_config)) ! 1) = 1/5"
    unfolding e by (simp_all add: overlap_def make_segment_def clip_def py_round_def round_half_even_def)
  have m: "max 0 (overlap (segments (fst (select_segments no_jitter overlap_clips base_config)) ! 0)
                     (segments (fst (select_segments no_jitter overlap_clips base_config)) ! 1))
        \<le> 1/4"
    using t l(1,2) by blast
  have x: "\<exists>seg \<in> set (selected after_high_clip).
             seg_src seg = cand_src (clip ''camA.mp4'' 0.1 3.1 0.4 ''audio_peak'' ''camA'')
             \<and> min (seg_end seg) (cand_end (clip ''camA.mp4'' 0.1 3.1 0.4 ''audio_peak'' ''camA''))
                 - max (seg_start seg) (cand_start (clip ''camA.mp4'' 0.1 3.1 0.4 ''audio_peak'' ''camA''))
                 > 1/4"
    by (simp add: after_high_clip_def eval_defs)
  have s: "select_step base_config after_high_clip (clip ''camA.mp4'' 0.1 3.1 0.4 ''audio_peak'' ''camA'')
        = Continue after_high_clip"
    using t x by blast
  show ?thesis using e l m s by simp
qed

section \<open>Determinism of the selection\<close>

lemma select_segments_cong:
  assumes "\<forall>k < length (concat (map snd cbs)). RandomA (seed cfg) k = RandomB (seed cfg) k"
  shows "select_segments RandomA cbs cfg = select_segments RandomB cbs cfg"
proof -
  have "order_candidates (concat (map snd cbs)) (RandomA (seed cfg))
      = order_candidates (concat (map snd cbs)) (RandomB (seed cfg))"
    using assms by (rule order_candidates_cong)
  then show ?thesis unfolding select_segments_def Let_def by (simp only:)
qed

lemma jittered_bounds:
  assumes "\<forall>k. 0 \<le> rng k \<and> rng k < 1" and "item \<in> set (jittered ordered rng)"
  shows "cand_score (snd item) \<le> fst item \<and> fst item < cand_score (snd item) + 1 / 10 ^ 6"
proof -
  from assms(2) obtain k c where item: "item = (cand_score c + rng k * (1 / 10 ^ 6), c)"
    unfolding jittered_def by auto
  have "0 \<le> rng k" "rng k < 1" using assms(1) by simp_all
  then have "0 \<le> rng k * (1 / 10 ^ 6)" "rng k * (1 / 10 ^ 6) < 1 / 10 ^ 6" by simp_all
  then show ?thesis unfolding item by simp
qed

lemma length_jittered: "length (jittered ordered rng) = length ordered"
  by (simp add: jittered_def)

lemma order_candidates_score_order:
  assumes rng: "\<forall>k. 0 \<le> rng k \<and> rng k < 1"
    and ij: "i < j" "j < length (order_candidates cs rng)"
  shows "cand_score (order_candidates cs rng ! j)
           < cand_score (order_candidates cs rng ! i) + 1 / 10 ^ 6"
proof -
  define J where
    "J = jittered (sort_key (\<lambda>c. (- cand_score c, cand_src c, cand_start c, cand_end c)) cs) rng"
  define K where
    "K = (\<lambda>item :: real \<times> CandidateClip. (- fst item, cand_src (snd item), cand_start (snd item)))"
  define S where "S = sort_key K J"
  have oc: "order_candidates cs rng = map snd S"
    unfolding order_candidates_def Let_def S_def K_def J_def by simp
  have len: "j < length S" "i < length S" using ij unfolding oc by simp_all
  have "sorted (map K S)" unfolding S_def by simp
  then have "map K S ! i \<le> map K S ! j"
    using ij(1) len by (intro sorted_nth_mono) simp_all
  then have "K (S ! i) \<le> K (S ! j)" using len by simp
  then have "fst (K (S ! i)) \<le> fst (K (S ! j))"
    by (auto simp: less_eq_prod_def)
  then have f: "fst (S ! j) \<le> fst (S ! i)" by (simp add: K_def)
  have "S ! i \<in> set J" "S ! j \<in> set J"
    using len nth_mem [of i S] nth_mem [of j S] unfolding S_def by simp_all
  then have "fst (S ! i) < cand_score (snd (S ! i)) + 1 / 10 ^ 6"
    "cand_score (snd (S ! j)) \<le> fst (S ! j)"
    using jittered_bounds [OF rng] unfolding J_def by blast+
  with f have "cand_score (snd (S ! j)) < cand_score (snd (S ! i)) + 1 / 10 ^ 6" by linarith
  then show ?thesis unfolding oc using len by simp
qed

lemma order_candidates_first_sort:
  "order_candidates cs rng = map snd (sort_key jitter_key (jittered (first_sort cs) rng))"
proof -
  have k: "jitter_key = (\<lambda>item. (- fst item, cand_src (snd item), cand_start (snd item)))"
    by (rule ext) (simp add: jitter_key_def)
  have f: "first_key = (\<lambda>c. (- cand_score c, cand_src c, cand_start c, cand_end c))"
    by (rule ext) (simp add: first_key_def)
  show ?thesis
    unfolding order_candidates_def first_sort_def Let_def k f by (rule refl)
qed

lemma jittered_nth:
  assumes "k < length xs"
  shows "jittered xs rng ! k = (cand_score (xs ! k) + rng k * (1 / 10 ^ 6), xs ! k)"
  using assms by (simp add: jittered_def nth_enumerate_eq)

lemma length_first_sort: "length (first_sort cs) = length cs"
  by (simp add: first_sort_def)

lemma jittered_upt:
  "jittered xs rng
     = map (\<lambda>k. (cand_score (xs ! k) + rng k * (1 / 10 ^ 6), xs ! k)) [0..<length xs]"
  by (rule nth_equalityI) (simp_all add: length_jittered jittered_nth)

lemma order_candidates_jitter_order: "order_candidates cs rng = jitter_order cs rng"
  unfolding order_candidates_first_sort jitter_order_def jittered_upt length_first_sort
  by (rule refl)

lemma fst_select_segments:
  "fst (select_segments Random cbs cfg)
     = (empty_edl cfg) \<lparr> segments := selected (select_loop cfg init_state
         (order_candidates (concat (map snd cbs)) (Random (seed cfg)))) \<rparr>"
proof (cases "concat (map snd cbs) = []")
  case True
  have "fst (select_segments Random cbs cfg) = empty_edl cfg"
    unfolding select_segments_def Let_def True by simp
  moreover have "selected (select_loop cfg init_state
         (order_candidates (concat (map snd cbs)) (Random (seed cfg)))) = []"
    unfolding True order_candidates_Nil by (simp add: init_state_def)
  ultimately show ?thesis by (simp add: empty_edl_def)
next
  case False
  show ?thesis
    unfolding select_segments_def Let_def empty_edl_def if_not_P [OF False] by simp
qed

lemma sorted_jittered_separated:
  assumes rng: "\<forall>k. 0 \<le> rng k \<and> rng k < 1"
  shows "separated xs \<Longrightarrow>
     sorted (map jitter_key
       (map (\<lambda>(k, cand). (cand_score cand + rng k * (1 / 10 ^ 6), cand)) (enumerate n xs)))"
proof (induction xs arbitrary: n)
  case Nil
  show ?case by simp
next
  case (Cons x xs)
  have sep: "\<forall>d \<in> set xs. cand_score d + 1 / 10 ^ 6 \<le> cand_score x" and rest: "separated xs"
    using Cons.prems by simp_all
  have "jitter_key (cand_score x + rng n * (1 / 10 ^ 6), x) \<le> jitter_key item"
    if "item \<in> set (map (\<lambda>(k, cand). (cand_score cand + rng k * (1 / 10 ^ 6), cand))
          (enumerate (Suc n) xs))" for item
  proof -
    from that obtain k d where item: "item = (cand_score d + rng k * (1 / 10 ^ 6), d)"
      and d: "d \<in> set xs"
      by (auto simp: in_set_enumerate_eq)
    have "0 \<le> rng n" "rng k < 1" using rng by simp_all
    then have "0 \<le> rng n * (1 / 10 ^ 6)" "rng k * (1 / 10 ^ 6) < 1 / 10 ^ 6" by simp_all
    moreover have "cand_score d + 1 / 10 ^ 6 \<le> cand_score x" using sep d by simp
    ultimately have "cand_score d + rng k * (1 / 10 ^ 6) < cand_score x + rng n * (1 / 10 ^ 6)"
      by linarith
    then show ?thesis unfolding item jitter_key_def by (simp add: less_eq_prod_def)
  qed
  then show ?case using Cons.IH [OF rest, of "Suc n"] by simp
qed

lemma order_candidates_separated:
  assumes "\<forall>k. 0 \<le> rng k \<and> rng k < 1" and "separated (first_sort cs)"
  shows "order_candidates cs rng = first_sort cs"
proof -
  have "sorted (map jitter_key (jittered (first_sort cs) rng))"
    unfolding jittered_def using assms by (rule sorted_jittered_separated)
  then have "sort_key jitter_key (jittered (first_sort cs) rng) = jittered (first_sort cs) rng"
    by (rule sort_key_id_if_sorted)
  then have "order_candidates cs rng = map snd (jittered (first_sort cs) rng)"
    unfolding order_candidates_first_sort by (simp only:)
  also have "\<dots> = first_sort cs"
    unfolding jittered_def by (rule map_snd_jitter)
  finally show ?thesis .
qed

lemma order_candidates_tie:
  assumes first: "first_key a \<le> first_key b" and tie: "cand_score a = cand_score b"
  shows "order_candidates [a, b] rng = (if rng 0 < rng 1 then [b, a] else [a, b])"
proof -
  have f: "first_sort [a, b] = [a, b]"
    using first by (simp add: first_sort_def)
  have j: "jittered [a, b] rng
      = [(cand_score b + rng 0 * (1 / 10 ^ 6), a), (cand_score b + rng 1 * (1 / 10 ^ 6), b)]"
    by (simp add: jittered_def tie)
  have rest: "(cand_src a, cand_start a) \<le> (cand_src b, cand_start b)"
    using first unfolding first_key_def tie less_eq_prod_def by auto
  show ?thesis
  proof (cases "rng 0 < rng 1")
    case True
    then have "\<not> jitter_key (cand_score b + rng 0 * (1 / 10 ^ 6), a)
           \<le> jitter_key (cand_score b + rng 1 * (1 / 10 ^ 6), b)"
      unfolding jitter_key_def less_eq_prod_def by simp
    then show ?thesis
      unfolding order_candidates_first_sort f j using True by simp
  next
    case False
    then have "jitter_key (cand_score b + rng 0 * (1 / 10 ^ 6), a)
           \<le> jitter_key (cand_score b + rng 1 * (1 / 10 ^ 6), b)"
      using rest unfolding jitter_key_def less_eq_prod_def [of "(_, _, _)"] by auto
    then show ?thesis
      unfolding order_candidates_first_sort f j using False by simp
  qed
qed


lemma select_segments_separated:
  assumes "\<forall>k. 0 \<le> RandomA (seed cfg) k \<and> RandomA (seed cfg) k < 1"
    and "separated (first_sort (concat (map snd cbs)))"
  shows "select_segments RandomA cbs cfg = select_segments no_jitter cbs cfg"
proof -
  have "\<forall>k. 0 \<le> no_jitter (seed cfg) k \<and> no_jitter (seed cfg) k < 1"
    by (simp add: no_jitter_def)
  then have "order_candidates (concat (map snd cbs)) (no_jitter (seed cfg))
      = first_sort (concat (map snd cbs))"
    using assms(2) by (rule order_candidates_separated)
  moreover have "order_candidates (concat (map snd cbs)) (RandomA (seed cfg))
      = first_sort (concat (map snd cbs))"
    using assms by (rule order_candidates_separated)
  ultimately have "order_candidates (concat (map snd cbs)) (RandomA (seed cfg))
      = order_candidates (concat (map snd cbs)) (no_jitter (seed cfg))"
    by simp
  then show ?thesis unfolding select_segments_def Let_def by (simp only:)
qed

lemma select_segments_tie:
  assumes "concat (map snd cbs) = [a, b]" and "first_key a \<le> first_key b"
    and "cand_score a = cand_score b"
  shows "segments (fst (select_segments RandomA cbs cfg))
     = selected (select_loop cfg init_state
         (if RandomA (seed cfg) 0 < RandomA (seed cfg) 1 then [b, a] else [a, b]))"
  unfolding segments_select_segments assms(1) order_candidates_tie [OF assms(2,3)]
  by (rule refl)

lemma order_candidates_score_order_all:
  assumes "\<forall>k. 0 \<le> rng k \<and> rng k < 1"
  shows "\<forall>j < length cs. \<forall>i < j.
     cand_score (order_candidates cs rng ! j) < cand_score (order_candidates cs rng ! i) + 1 / 10 ^ 6"
proof (intro allI impI)
  fix j i assume "j < length cs" "i < j"
  moreover have "length (order_candidates cs rng) = length cs"
    by (simp add: order_candidates_def length_jittered)
  ultimately show "cand_score (order_candidates cs rng ! j)
      < cand_score (order_candidates cs rng ! i) + 1 / 10 ^ 6"
    using order_candidates_score_order [OF assms, of i j cs] by simp
qed

text \<open>
  C2. The result of \<open>select_segments\<close> is determined by the candidate collection, the
  configuration and the values that the generator seeded with \<open>Config.seed\<close> returns on
  its first draws, one per candidate: two runs whose generators, seeded alike, return the
  same values produce the same EDL and the same serialised form. The generator is used
  only to order the candidates: the EDL is the configuration's fields around the segments
  that the selection loop accepts from the candidates in the order
  \<open>(-(score + jitter), source, start)\<close>, where the jitter of the \<open>k\<close>-th candidate of the
  first sort is the \<open>k\<close>-th draw times \<open>1e-6\<close>. With draws in \<open>[0, 1)\<close> a candidate is never
  ordered after one whose score is lower by \<open>1e-6\<close> or more, and when the scores are
  \<open>1e-6\<close> or more apart the draws change nothing. Between two candidates of equal score
  the draws decide: the second of the first sort goes first exactly when its draw is
  the greater one.
\<close>

theorem select_segments_deterministic:
  assumes "\<forall>k < length (concat (map snd cbs)). RandomA (seed cfg) k = RandomB (seed cfg) k"
  shows "select_segments RandomA cbs cfg = select_segments RandomB cbs cfg
     \<and> to_dict (fst (select_segments RandomA cbs cfg)) = to_dict (fst (select_segments RandomB cbs cfg))
     \<and> fst (select_segments RandomA cbs cfg)
         = (empty_edl cfg) \<lparr> segments := selected (select_loop cfg init_state
             (jitter_order (concat (map snd cbs)) (RandomA (seed cfg)))) \<rparr>
     \<and> ((\<forall>k. 0 \<le> RandomA (seed cfg) k \<and> RandomA (seed cfg) k < 1) \<longrightarrow>
          (\<forall>j < length (concat (map snd cbs)). \<forall>i < j.
             cand_score (jitter_order (concat (map snd cbs)) (RandomA (seed cfg)) ! j)
               < cand_score (jitter_order (concat (map snd cbs)) (RandomA (seed cfg)) ! i) + 1 / 10 ^ 6)
        \<and> (separated (first_sort (concat (map snd cbs))) \<longrightarrow>
             select_segments RandomA cbs cfg = select_segments no_jitter cbs cfg))
     \<and> (concat (map snd cbs) = [a, b] \<longrightarrow> first_key a \<le> first_key b \<longrightarrow>
          cand_score a = cand_score b \<longrightarrow>
          segments (fst (select_segments RandomA cbs cfg))
            = selected (select_loop cfg init_state
                (if RandomA (seed cfg) 0 < RandomA (seed cfg) 1 then [b, a] else [a, b])))"
proof -
  let ?all = "concat (map snd cbs)"
  let ?rng = "RandomA (seed cfg)"
  have same: "select_segments RandomA cbs cfg = select_segments RandomB cbs cfg"
    using assms by (rule select_segments_cong)
  have dict: "to_dict (fst (select_segments RandomA cbs cfg))
      = to_dict (fst (select_segments RandomB cbs cfg))"
    by (simp only: same)
  have edl: "fst (select_segments RandomA cbs cfg)
      = (empty_edl cfg) \<lparr> segments := selected (select_loop cfg init_state
          (jitter_order ?all ?rng)) \<rparr>"
    unfolding order_candidates_jitter_order [symmetric] by (rule fst_select_segments)
  have near: "\<forall>j < length ?all. \<forall>i < j.
      cand_score (jitter_order ?all ?rng ! j) < cand_score (jitter_order ?all ?rng ! i) + 1 / 10 ^ 6"
    if "\<forall>k. 0 \<le> ?rng k \<and> ?rng k < 1"
    unfolding order_candidates_jitter_order [symmetric]
    using that by (rule order_candidates_score_order_all)
  have apart: "select_segments RandomA cbs cfg = select_segments no_jitter cbs cfg"
    if "\<forall>k. 0 \<le> ?rng k \<and> ?rng k < 1" "separated (first_sort ?all)"
    using that by (rule select_segments_separated)
  have tie: "segments (fst (select_segments RandomA cbs cfg))
      = selected (select_loop cfg init_state (if ?rng 0 < ?rng 1 then [b, a] else [a, b]))"
    if "?all = [a, b]" "first_key a \<le> first_key b" "cand_score a = cand_score b"
    using that by (rule select_segments_tie)
  show ?thesis
    using same dict edl near apart tie by blast
qed

theorem select_segments_deterministic_witness:
  "generator_lo_hi 42 0 = generator_lo_hi' 42 0
   \<and> generator_lo_hi 42 1 = generator_lo_hi' 42 1
   \<and> generator_lo_hi 42 2 \<noteq> generator_lo_hi' 42 2
   \<and> concat (map snd tie_clips) = [tie_clip_a, tie_clip_b]
   \<and> cand_score tie_clip_a = cand_score tie_clip_b
   \<and> select_segments generator_lo_hi tie_clips tie_config
       = select_segments generator_lo_hi' tie_clips tie_config
   \<and> to_dict (fst (select_segments generator_lo_hi tie_clips tie_config))
       = to_dict (fst (select_segments generator_lo_hi' tie_clips tie_config))
   \<and> generator_lo_hi 42 0 < generator_lo_hi 42 1
   \<and> map seg_src (segments (fst (select_segments generator_lo_hi tie_clips tie_config)))
       = [''camB.mp4'']
   \<and> generator_hi_lo 42 1 < generator_hi_lo 42 0
   \<and> map seg_src (segments (fst (select_segments generator_hi_lo tie_clips tie_config)))
       = [''camA.mp4'']
   \<and> separated (first_sort (concat (map snd determinism_clips)))
   \<and> select_segments generator_lo_hi determinism_clips base_config
       = select_segments no_jitter determinism_clips base_config
   \<and> map seg_src (segments (fst (select_segments generator_lo_hi determinism_clips base_config)))
       = [''camA.mp4'', ''camB.mp4'']"
proof -
  have c: "concat (map snd tie_clips) = [tie_clip_a, tie_clip_b]"
    by (simp add: tie_clips_def)
  have s: "seed tie_config = 42" "seed base_config = 42"
    by (simp_all add: tie_config_def base_config_def)
  have g1: "generator_lo_hi 42 0 = generator_lo_hi' 42 0"
    and g2: "generator_lo_hi 42 1 = generator_lo_hi' 42 1"
    and g3: "generator_lo_hi 42 2 \<noteq> generator_lo_hi' 42 2"
    and g4: "generator_lo_hi 42 0 < generator_lo_hi 42 1"
    and g5: "generator_hi_lo 42 1 < generator_hi_lo 42 0"
    by (simp_all add: generator_lo_hi_def generator_lo_hi'_def generator_hi_lo_def)
  have k: "first_key tie_clip_a \<le> first_key tie_clip_b"
    by (simp add: first_key_def tie_clip_a_def tie_clip_b_def clip_def less_eq_prod_def)
  have e: "cand_score tie_clip_a = cand_score tie_clip_b"
    by (simp add: tie_clip_a_def tie_clip_b_def clip_def)
  have h: "\<forall>k < length (concat (map snd tie_clips)).
      generator_lo_hi (seed tie_config) k = generator_lo_hi' (seed tie_config) k"
    unfolding c by (simp add: generator_lo_hi_def generator_lo_hi'_def)
  note t1 = select_segments_deterministic
    [where cbs = tie_clips and RandomA = generator_lo_hi and RandomB = generator_lo_hi'
       and cfg = tie_config and a = tie_clip_a and b = tie_clip_b, OF h]
  have ba: "map seg_src (selected (select_loop tie_config init_state [tie_clip_b, tie_clip_a]))
      = [''camB.mp4'']"
    by (simp add: tie_config_def tie_clip_a_def tie_clip_b_def eval_defs)
  have r1a: "select_segments generator_lo_hi tie_clips tie_config
       = select_segments generator_lo_hi' tie_clips tie_config"
    using t1 by blast
  have r1b: "to_dict (fst (select_segments generator_lo_hi tie_clips tie_config))
       = to_dict (fst (select_segments generator_lo_hi' tie_clips tie_config))"
    using t1 by blast
  have "segments (fst (select_segments generator_lo_hi tie_clips tie_config))
      = selected (select_loop tie_config init_state
          (if generator_lo_hi (seed tie_config) 0 < generator_lo_hi (seed tie_config) 1
           then [tie_clip_b, tie_clip_a] else [tie_clip_a, tie_clip_b]))"
    using t1 c k e by blast
  then have "segments (fst (select_segments generator_lo_hi tie_clips tie_config))
      = selected (select_loop tie_config init_state [tie_clip_b, tie_clip_a])"
    by (simp only: s g4 if_True)
  then have r1c: "map seg_src (segments (fst (select_segments generator_lo_hi tie_clips tie_config)))
       = [''camB.mp4'']"
    by (simp only: ba)
  have h2: "\<forall>k < length (concat (map snd tie_clips)).
      generator_hi_lo (seed tie_config) k = generator_hi_lo (seed tie_config) k"
    by simp
  note t2 = select_segments_deterministic
    [where cbs = tie_clips and RandomA = generator_hi_lo and RandomB = generator_hi_lo
       and cfg = tie_config and a = tie_clip_a and b = tie_clip_b, OF h2]
  have ab: "map seg_src (selected (select_loop tie_config init_state [tie_clip_a, tie_clip_b]))
      = [''camA.mp4'']"
    by (simp add: tie_config_def tie_clip_a_def tie_clip_b_def eval_defs)
  have "segments (fst (select_segments generator_hi_lo tie_clips tie_config))
      = selected (select_loop tie_config init_state
          (if generator_hi_lo (seed tie_config) 0 < generator_hi_lo (seed tie_config) 1
           then [tie_clip_b, tie_clip_a] else [tie_clip_a, tie_clip_b]))"
    using t2 c k e by blast
  moreover have "\<not> generator_hi_lo 42 0 < generator_hi_lo 42 1"
    using g5 by simp
  ultimately have "segments (fst (select_segments generator_hi_lo tie_clips tie_config))
      = selected (select_loop tie_config init_state [tie_clip_a, tie_clip_b])"
    by (simp only: s if_False)
  then have r2: "map seg_src (segments (fst (select_segments generator_hi_lo tie_clips tie_config)))
       = [''camA.mp4'']"
    by (simp only: ab)
  have sep: "separated (first_sort (concat (map snd determinism_clips)))"
    by (simp add: determinism_clips_def first_sort_def first_key_def clip_def less_eq_prod_def)
  have b: "\<forall>k. 0 \<le> generator_lo_hi (seed base_config) k \<and> generator_lo_hi (seed base_config) k < 1"
    by (simp add: generator_lo_hi_def)
  have h3: "\<forall>k < length (concat (map snd determinism_clips)).
      generator_lo_hi (seed base_config) k = generator_lo_hi (seed base_config) k"
    by simp
  note t3 = select_segments_deterministic
    [where cbs = determinism_clips and RandomA = generator_lo_hi and RandomB = generator_lo_hi
       and cfg = base_config, OF h3]
  have r3: "select_segments generator_lo_hi determinism_clips base_config
       = select_segments no_jitter determinism_clips base_config"
    using t3 b sep by blast
  have "map seg_src (segments (fst (select_segments no_jitter determinism_clips base_config)))
       = [''camA.mp4'', ''camB.mp4'']"
    by (simp add: determinism_clips_def eval_defs)
  then have n: "map seg_src (segments (fst (select_segments generator_lo_hi determinism_clips base_config)))
       = [''camA.mp4'', ''camB.mp4'']"
    by (simp only: r3)
  show ?thesis
    by (intro conjI g1 g2 g3 g4 g5 c e r1a r1b r1c r2 sep r3 n)
qed

section \<open>The serialisation round trip\<close>

lemma seg_from_dict_to_dict: "seg_from_dict (seg_to_dict s) = Inr (round_segment s)"
  by (simp add: seg_from_dict_def seg_to_dict_def round_segment_def get_or_def)

lemma segs_from_dicts_to_dict:
  "segs_from_dicts (map seg_to_dict ss) = Inr (map round_segment ss)"
  by (induction ss) (simp_all add: seg_from_dict_to_dict)

lemma edl_round_trip:
  "edl_from_dict (to_dict e) = Inr (e \<lparr> segments := map round_segment (segments e) \<rparr>)"
  by (simp add: edl_from_dict_def to_dict_def get_or_def segs_from_dicts_to_dict)

lemma round_segment_idem: "round_segment (round_segment s) = round_segment s"
  by (simp add: round_segment_def py_round_idem)

lemma tags_inv_step:
  assumes inv: "tags_inv st"
    and step: "select_step cfg st cand = Continue st' \<or> select_step cfg st cand = Break st'"
  shows "tags_inv st'"
proof -
  from select_step_cases [OF step] show ?thesis
  proof
    assume "st' = st" with inv show ?thesis by simp
  next
    assume "st' = accept_segment st (camera_label cand)
                   (make_segment cand (camera_label cand) (trimmed_end cfg st cand))
          \<and> \<not> rejected cfg st cand
          \<and> (run_total st + CandidateClip_duration cand > max_duration cfg
               \<longrightarrow> clip_min cfg \<le> max_duration cfg - run_total st)"
    then have "selected st' = selected st
        @ [make_segment cand (camera_label cand) (trimmed_end cfg st cand)]"
      by (simp add: accept_segment_def)
    then show ?thesis
      using inv unfolding tags_inv_def by (auto simp: make_segment_def)
  qed
qed

lemma tags_inv_loop: "tags_inv (select_loop cfg init_state cands)"
proof (rule select_loop_invariant [where P = tags_inv])
  show "tags_inv init_state" by (simp add: tags_inv_def init_state_def)
qed (rule tags_inv_step)

text \<open>
  C7 (as amended). For every EDL, \<open>edl_from_dict (to_dict edl)\<close> succeeds and returns the
  EDL with the same segments in the same order, each with its \<open>src\<close>, \<open>tags\<close> (in the order
  the segment stores them) and \<open>cam\<close> unchanged, its start and end rounded to 3 decimals and
  its score to 4; a second round trip changes nothing more. \<open>to_dict\<close> writes the tags as
  the segment stores them, without sorting; every segment that \<open>select_segments\<close> builds
  stores its tags alphabetically sorted and without repetition.
\<close>

theorem edl_round_trip_rounded:
  "edl_from_dict (to_dict e) = Inr (e \<lparr> segments := map round_segment (segments e) \<rparr>)
   \<and> edl_from_dict (to_dict (e \<lparr> segments := map round_segment (segments e) \<rparr>))
       = Inr (e \<lparr> segments := map round_segment (segments e) \<rparr>)
   \<and> d_segments (to_dict e) = Some (map seg_to_dict (segments e))
   \<and> d_tags (seg_to_dict s) = Some (seg_tags s)
   \<and> seg_tags (round_segment s) = seg_tags s
   \<and> seg_src (round_segment s) = seg_src s
   \<and> seg_camera (round_segment s) = seg_camera s
   \<and> (\<forall>s \<in> set (segments (fst (select_segments Random cbs cfg))).
         sorted (seg_tags s) \<and> distinct (seg_tags s))"
proof -
  have "tags_inv (select_loop cfg init_state
         (order_candidates (concat (map snd cbs)) (Random (seed cfg))))"
    by (rule tags_inv_loop)
  then have t: "\<forall>s \<in> set (segments (fst (select_segments Random cbs cfg))).
         sorted (seg_tags s) \<and> distinct (seg_tags s)"
    unfolding tags_inv_def segments_select_segments .
  have r: "edl_from_dict (to_dict (e \<lparr> segments := map round_segment (segments e) \<rparr>))
       = Inr (e \<lparr> segments := map round_segment (segments e) \<rparr>)"
    unfolding edl_round_trip by (simp add: round_segment_idem)
  show ?thesis
    using t r edl_round_trip [of e]
    by (simp add: to_dict_def seg_to_dict_def round_segment_def)
qed

theorem edl_round_trip_rounded_witness:
  "segments (fst (select_segments no_jitter determinism_clips base_config))
     = [make_segment (clip ''camA.mp4'' 0 3 0.9 ''motion'' ''camA'') ''camA'' 3,
        make_segment (clip ''camB.mp4'' 0 3 0.85 ''audio_peak'' ''camB'') ''camB'' 3]
   \<and> sorted (seg_tags (make_segment (clip ''camA.mp4'' 0 3 0.9 ''motion'' ''camA'') ''camA'' 3))
   \<and> distinct (seg_tags (make_segment (clip ''camA.mp4'' 0 3 0.9 ''motion'' ''camA'') ''camA'' 3))
   \<and> edl_from_dict (to_dict unsorted_tags_edl)
       = Inr (unsorted_tags_edl \<lparr> segments := map round_segment (segments unsorted_tags_edl) \<rparr>)"
proof -
  note t = edl_round_trip_rounded
    [where e = unsorted_tags_edl and Random = no_jitter and cbs = determinism_clips
       and cfg = base_config]
  have e: "segments (fst (select_segments no_jitter determinism_clips base_config))
     = [make_segment (clip ''camA.mp4'' 0 3 0.9 ''motion'' ''camA'') ''camA'' 3,
        make_segment (clip ''camB.mp4'' 0 3 0.85 ''audio_peak'' ''camB'') ''camB'' 3]"
    by (simp add: determinism_clips_def eval_defs)
  have "\<forall>s \<in> set (segments (fst (select_segments no_jitter determinism_clips base_config))).
         sorted (seg_tags s) \<and> distinct (seg_tags s)"
    using t by blast
  then have "sorted (seg_tags (make_segment (clip ''camA.mp4'' 0 3 0.9 ''motion'' ''camA'') ''camA'' 3))
     \<and> distinct (seg_tags (make_segment (clip ''camA.mp4'' 0 3 0.9 ''motion'' ''camA'') ''camA'' 3))"
    unfolding e by simp
  then show ?thesis using e t by blast
qed

theorem serialised_tags_counterexample:
  "d_segments (to_dict unsorted_tags_edl)
     = Some [\<lparr> d_src = Some ''camA.mp4'', d_in = Some 0, d_start = None, d_out = Some 2.5,
               d_end = None, d_score = Some 0.8, d_tags = Some [''motion'', ''faces''],
               d_cam = Some ''camA'' \<rparr>]
   \<and> \<not> sorted [''motion'', ''faces'']
   \<and> sort [''motion'', ''faces''] = [''faces'', ''motion'']"
  by (simp add: to_dict_def seg_to_dict_def unsorted_tags_edl_def py_round_def round_half_even_def)

section \<open>Candidate construction\<close>

lemma window_contribution_loop_sum:
  "window_contribution_loop center half events acc
     = acc + sum_list (map ev_score (filter (\<lambda>ev. \<bar>ev_time ev - center\<bar> \<le> half) events))"
  by (induction events arbitrary: acc) simp_all

lemma window_contribution_sum:
  "window_contribution center events window
     = sum_list (map ev_score (filter (\<lambda>ev. \<bar>ev_time ev - center\<bar> \<le> window / 2) events))"
  by (simp add: window_contribution_def window_contribution_loop_sum)

lemma score_loop_tags:
  "snd (score_loop W center window items (s, T))
     = T \<union> {t. \<exists>evs. (t, evs) \<in> set items \<and> 0 < dict_get W t 0
                 \<and> 0 < window_contribution center evs window}"
proof (induction items arbitrary: s T)
  case Nil
  then show ?case by simp
next
  case (Cons item items)
  obtain t evs where item: "item = (t, evs)" by (cases item)
  show ?case
    unfolding item by (auto simp: Cons.IH Let_def)
qed

lemma set_merge_loop: "set (merge_loop tol res xs) \<subseteq> set res \<union> set xs"
proof (induction xs arbitrary: res)
  case Nil
  then show ?case by simp
next
  case (Cons a xs)
  show ?case using Cons.IH [of res] Cons.IH [of "res @ [a]"] by auto
qed

lemma set_merge_similar_candidates: "set (merge_similar_candidates cands tol) \<subseteq> set cands"
  using set_merge_loop [of tol "[]" "sort_key (\<lambda>c. - cand_score c) cands"]
  by (simp add: merge_similar_candidates_def)

lemma score_loop_score:
  "fst (score_loop W center window items (s, T))
     = s + sum_list (map (\<lambda>(t, evs). dict_get W t 0 * window_contribution center evs window)
             (filter (\<lambda>(t, evs). 0 < dict_get W t 0) items))"
proof (induction items arbitrary: s T)
  case Nil
  then show ?case by simp
next
  case (Cons item items)
  obtain t evs where item: "item = (t, evs)" by (cases item)
  show ?case
    unfolding item by (simp add: Cons.IH Let_def not_le)
qed

lemma window_contribution_window_sum:
  "window_contribution (ev_time event) evs
     (snd (window_bounds cfg duration (target_len_of cfg) event)
       - fst (window_bounds cfg duration (target_len_of cfg) event))
   = window_sum cfg duration event evs"
  by (simp add: window_contribution_sum window_sum_def window_of_def)

lemma contributing_tags_iff:
  "t \<in> contributing_tags cfg duration ebt event \<longleftrightarrow>
     (\<exists>evs. (t, evs) \<in> set ebt \<and> 0 < dict_get (weights cfg) t 0
        \<and> 0 < window_sum cfg duration event evs)"
  unfolding contributing_tags_def by force

lemma build_candidate_anchor_clip:
  "build_candidate path (infer_camera_label stem) duration (target_len_of cfg) ebt cfg tag event
     = (if composite_score cfg duration ebt event \<le> 0 then None
        else Some (anchor_clip path stem duration ebt cfg (tag, event)))"
proof -
  let ?b = "window_bounds cfg duration (target_len_of cfg) event"
  let ?s = "score_loop (weights cfg) (ev_time event) (snd ?b - fst ?b) ebt (0, {tag})"
  have sc: "fst ?s = composite_score cfg duration ebt event"
    unfolding score_loop_score window_contribution_window_sum composite_score_def by simp
  have "snd ?s = {tag} \<union> {t. \<exists>evs. (t, evs) \<in> set ebt \<and> 0 < dict_get (weights cfg) t 0
                 \<and> 0 < window_sum cfg duration event evs}"
    unfolding score_loop_tags window_contribution_window_sum by (rule refl)
  also have "\<dots> = insert tag (contributing_tags cfg duration ebt event)"
    using contributing_tags_iff [of _ cfg duration ebt event] by auto
  finally have tg: "snd ?s = insert tag (contributing_tags cfg duration ebt event)" .
  show ?thesis
    unfolding build_candidate_def Let_def sc tg anchor_clip_def by simp
qed

lemma map_filter_if:
  "List.map_filter (\<lambda>e. if P e then None else Some (g e)) xs = map g (filter (\<lambda>e. \<not> P e) xs)"
  by (induction xs) (simp_all add: List.map_filter_def)

lemma concat_anchor_events:
  "concat (map (\<lambda>tag. map (\<lambda>e. h (tag, e)) (filter Q (D tag))) tags)
     = map h (filter (\<lambda>anchor. Q (snd anchor)) (concat (map (\<lambda>tag. map (Pair tag) (D tag)) tags)))"
  by (induction tags) (simp_all add: filter_map comp_def)

lemma built_candidates:
  "concat (map (\<lambda>tag.
       List.map_filter
         (build_candidate path (infer_camera_label stem) duration (target_len_of cfg) ebt cfg tag)
         (dict_get ebt tag []))
     (anchor_tags_of ebt))
   = map (anchor_clip path stem duration ebt cfg) (kept_anchor_events cfg duration ebt)"
proof -
  have b: "build_candidate path (infer_camera_label stem) duration (target_len_of cfg) ebt cfg tag
      = (\<lambda>event. if composite_score cfg duration ebt event \<le> 0 then None
                  else Some (anchor_clip path stem duration ebt cfg (tag, event)))" for tag
    by (rule ext) (rule build_candidate_anchor_clip)
  have "concat (map (\<lambda>tag.
       List.map_filter
         (build_candidate path (infer_camera_label stem) duration (target_len_of cfg) ebt cfg tag)
         (dict_get ebt tag []))
     (anchor_tags_of ebt))
   = concat (map (\<lambda>tag. map (\<lambda>e. anchor_clip path stem duration ebt cfg (tag, e))
        (filter (\<lambda>e. 0 < composite_score cfg duration ebt e) (dict_get ebt tag [])))
      (anchor_tags_of ebt))"
    unfolding b map_filter_if not_le by (rule refl)
  also have "\<dots> = map (anchor_clip path stem duration ebt cfg)
      (filter (\<lambda>anchor. 0 < composite_score cfg duration ebt (snd anchor))
        (concat (map (\<lambda>tag. map (Pair tag) (dict_get ebt tag [])) (anchor_tags_of ebt))))"
    by (rule concat_anchor_events)
  finally show ?thesis
    unfolding kept_anchor_events_def anchor_events_def .
qed

lemma generate_candidates_refined:
  assumes "generate_candidates path stem duration ebt cfg = Inr cands" and "0 < duration"
  shows "cands = by_score_descending (merge_similar_candidates
           (map (anchor_clip path stem duration ebt cfg) (kept_anchor_events cfg duration ebt))
           (1/2))"
proof (cases "anchor_tags_of ebt = []")
  case True
  have "cands = []"
    using assms unfolding generate_candidates_def Let_def True
    by (simp split: if_splits)
  moreover have "kept_anchor_events cfg duration ebt = []"
    unfolding kept_anchor_events_def anchor_events_def True by simp
  ultimately show ?thesis
    by (simp add: by_score_descending_def merge_similar_candidates_def)
next
  case False
  have "cands = sort_key (\<lambda>c. - cand_score c) (merge_similar_candidates
      (concat (map (\<lambda>tag.
         List.map_filter
           (build_candidate path (infer_camera_label stem) duration (target_len_of cfg) ebt cfg tag)
           (dict_get ebt tag []))
       (anchor_tags_of ebt))) (1/2))"
    using assms False unfolding generate_candidates_def Let_def target_len_of_def
    by (simp split: if_splits)
  then show ?thesis
    unfolding built_candidates by_score_descending_def .
qed

lemma generate_candidates_anchor:
  assumes gen: "generate_candidates path stem duration ebt cfg = Inr cands"
    and c: "c \<in> set cands"
  shows "\<exists>anchor \<in> set (anchor_events ebt).
     0 < composite_score cfg duration ebt (snd anchor)
     \<and> c = anchor_clip path stem duration ebt cfg anchor"
proof -
  have pos: "0 < duration"
    using gen c unfolding generate_candidates_def by (auto split: if_splits)
  have "c \<in> set (merge_similar_candidates
           (map (anchor_clip path stem duration ebt cfg) (kept_anchor_events cfg duration ebt))
           (1/2))"
    using c unfolding generate_candidates_refined [OF gen pos] by_score_descending_def by simp
  then have "c \<in> set (map (anchor_clip path stem duration ebt cfg)
      (kept_anchor_events cfg duration ebt))"
    using set_merge_similar_candidates by blast
  then show ?thesis unfolding kept_anchor_events_def by auto
qed

text \<open>
  C5 (as amended). The result of \<open>generate_candidates\<close> is made of the clips of the anchor
  events whose composite score is positive (an anchor event whose composite score is not
  positive gives no candidate), deduplicated and sorted by descending score. Every
  returned candidate is the clip of one anchor event: its bounds are that event's window,
  rounded, its score is that event's composite score, which is positive, and its tags are
  the tag of that anchor event together with exactly the tags of \<open>events_by_tag\<close> whose
  weight is positive and whose events within the half-width of that window around the
  anchor time have a positive sum of scores. The anchor's own tag is in the set whatever
  its weight and its sum are.
\<close>

theorem generate_candidates_tags:
  assumes "generate_candidates path stem duration ebt cfg = Inr cands"
  shows "(0 < duration \<longrightarrow>
            cands = by_score_descending (merge_similar_candidates
              (map (anchor_clip path stem duration ebt cfg) (kept_anchor_events cfg duration ebt))
              (1/2)))
     \<and> (\<forall>c \<in> set cands. \<exists>anchor \<in> set (anchor_events ebt).
           c = anchor_clip path stem duration ebt cfg anchor
           \<and> cand_start c
               = py_round (fst (window_bounds cfg duration (target_len_of cfg) (snd anchor))) 3
           \<and> cand_end c
               = py_round (snd (window_bounds cfg duration (target_len_of cfg) (snd anchor))) 3
           \<and> cand_score c = composite_score cfg duration ebt (snd anchor)
           \<and> 0 < cand_score c
           \<and> (\<forall>t. t \<in> cand_tags c \<longleftrightarrow>
                 t = fst anchor
                 \<or> (\<exists>evs. (t, evs) \<in> set ebt \<and> 0 < dict_get (weights cfg) t 0
                      \<and> 0 < sum_list (map ev_score
                             (filter (\<lambda>ev. \<bar>ev_time ev - ev_time (snd anchor)\<bar>
                                            \<le> window_of cfg duration (snd anchor) / 2) evs)))))
     \<and> (\<forall>anchor \<in> set (anchor_events ebt).
           composite_score cfg duration ebt (snd anchor) \<le> 0 \<longrightarrow>
           build_candidate path (infer_camera_label stem) duration (target_len_of cfg) ebt cfg
             (fst anchor) (snd anchor) = None)"
proof (intro conjI impI ballI)
  assume "0 < duration"
  with assms show "cands = by_score_descending (merge_similar_candidates
      (map (anchor_clip path stem duration ebt cfg) (kept_anchor_events cfg duration ebt)) (1/2))"
    by (rule generate_candidates_refined)
next
  fix c assume "c \<in> set cands"
  with assms obtain anchor where a: "anchor \<in> set (anchor_events ebt)"
    and p: "0 < composite_score cfg duration ebt (snd anchor)"
    and c: "c = anchor_clip path stem duration ebt cfg anchor"
    using generate_candidates_anchor by blast
  have "\<forall>t. t \<in> cand_tags c \<longleftrightarrow>
      t = fst anchor
      \<or> (\<exists>evs. (t, evs) \<in> set ebt \<and> 0 < dict_get (weights cfg) t 0
           \<and> 0 < sum_list (map ev_score
                  (filter (\<lambda>ev. \<bar>ev_time ev - ev_time (snd anchor)\<bar>
                                 \<le> window_of cfg duration (snd anchor) / 2) evs)))"
    unfolding c anchor_clip_def
    by (simp add: contributing_tags_iff window_sum_def)
  moreover have "cand_start c
      = py_round (fst (window_bounds cfg duration (target_len_of cfg) (snd anchor))) 3"
    "cand_end c
      = py_round (snd (window_bounds cfg duration (target_len_of cfg) (snd anchor))) 3"
    "cand_score c = composite_score cfg duration ebt (snd anchor)"
    unfolding c anchor_clip_def by simp_all
  ultimately show "\<exists>anchor \<in> set (anchor_events ebt).
           c = anchor_clip path stem duration ebt cfg anchor
           \<and> cand_start c
               = py_round (fst (window_bounds cfg duration (target_len_of cfg) (snd anchor))) 3
           \<and> cand_end c
               = py_round (snd (window_bounds cfg duration (target_len_of cfg) (snd anchor))) 3
           \<and> cand_score c = composite_score cfg duration ebt (snd anchor)
           \<and> 0 < cand_score c
           \<and> (\<forall>t. t \<in> cand_tags c \<longleftrightarrow>
                 t = fst anchor
                 \<or> (\<exists>evs. (t, evs) \<in> set ebt \<and> 0 < dict_get (weights cfg) t 0
                      \<and> 0 < sum_list (map ev_score
                             (filter (\<lambda>ev. \<bar>ev_time ev - ev_time (snd anchor)\<bar>
                                            \<le> window_of cfg duration (snd anchor) / 2) evs))))"
    using a p c by (intro bexI [of _ anchor]) simp_all
next
  fix anchor :: "string \<times> DetectionEvent"
  assume "composite_score cfg duration ebt (snd anchor) \<le> 0"
  then show "build_candidate path (infer_camera_label stem) duration (target_len_of cfg) ebt cfg
             (fst anchor) (snd anchor) = None"
    unfolding build_candidate_anchor_clip by simp
qed


lemma two_tag_candidates:
  "generate_candidates ''camA_1.mp4'' ''camA_1'' 10 two_tag_events audio_only_config
     = Inr [\<lparr> cand_src = ''camA_1.mp4'', cand_start = 4.625, cand_end = 7.375,
               cand_score = 0.8, cand_tags = {''audio_peak''}, cand_camera = Some ''camA'' \<rparr>,
            \<lparr> cand_src = ''camA_1.mp4'', cand_start = 3.625, cand_end = 6.375,
               cand_score = 0.8, cand_tags = {''audio_peak'', ''motion''},
               cand_camera = Some ''camA'' \<rparr>]"
  by code_simp

lemma motion_only_candidates:
  "generate_candidates ''camA_1.mp4'' ''camA_1'' 10 motion_only_events audio_only_config = Inr []"
  by code_simp

theorem generate_candidates_tags_witness:
  "generate_candidates ''camA_1.mp4'' ''camA_1'' 10 two_tag_events audio_only_config
     = Inr [\<lparr> cand_src = ''camA_1.mp4'', cand_start = 4.625, cand_end = 7.375,
               cand_score = 0.8, cand_tags = {''audio_peak''}, cand_camera = Some ''camA'' \<rparr>,
            \<lparr> cand_src = ''camA_1.mp4'', cand_start = 3.625, cand_end = 6.375,
               cand_score = 0.8, cand_tags = {''audio_peak'', ''motion''},
               cand_camera = Some ''camA'' \<rparr>]
   \<and> anchor_events two_tag_events = [(''audio_peak'', audio_event), (''motion'', motion_event)]
   \<and> kept_anchor_events audio_only_config 10 two_tag_events
       = [(''audio_peak'', audio_event), (''motion'', motion_event)]
   \<and> anchor_clip ''camA_1.mp4'' ''camA_1'' 10 two_tag_events audio_only_config
         (''audio_peak'', audio_event)
       = \<lparr> cand_src = ''camA_1.mp4'', cand_start = 4.625, cand_end = 7.375,
           cand_score = 0.8, cand_tags = {''audio_peak''}, cand_camera = Some ''camA'' \<rparr>
   \<and> anchor_clip ''camA_1.mp4'' ''camA_1'' 10 two_tag_events audio_only_config
         (''motion'', motion_event)
       = \<lparr> cand_src = ''camA_1.mp4'', cand_start = 3.625, cand_end = 6.375,
           cand_score = 0.8, cand_tags = {''audio_peak'', ''motion''},
           cand_camera = Some ''camA'' \<rparr>
   \<and> [\<lparr> cand_src = ''camA_1.mp4'', cand_start = 4.625, cand_end = 7.375,
          cand_score = 0.8, cand_tags = {''audio_peak''}, cand_camera = Some ''camA'' \<rparr>,
       \<lparr> cand_src = ''camA_1.mp4'', cand_start = 3.625, cand_end = 6.375,
          cand_score = 0.8, cand_tags = {''audio_peak'', ''motion''},
          cand_camera = Some ''camA'' \<rparr>]
       = by_score_descending (merge_similar_candidates
           (map (anchor_clip ''camA_1.mp4'' ''camA_1'' 10 two_tag_events audio_only_config)
              (kept_anchor_events audio_only_config 10 two_tag_events)) (1/2))
   \<and> generate_candidates ''camA_1.mp4'' ''camA_1'' 10 motion_only_events audio_only_config = Inr []
   \<and> anchor_events motion_only_events = [(''motion'', motion_event)]
   \<and> composite_score audio_only_config 10 motion_only_events motion_event = 0
   \<and> build_candidate ''camA_1.mp4'' (infer_camera_label ''camA_1'') 10
         (target_len_of audio_only_config) motion_only_events audio_only_config
         ''motion'' motion_event = None"
proof -
  note t = generate_candidates_tags [OF two_tag_candidates]
  have r: "[\<lparr> cand_src = ''camA_1.mp4'', cand_start = 4.625, cand_end = 7.375,
          cand_score = 0.8, cand_tags = {''audio_peak''}, cand_camera = Some ''camA'' \<rparr>,
       \<lparr> cand_src = ''camA_1.mp4'', cand_start = 3.625, cand_end = 6.375,
          cand_score = 0.8, cand_tags = {''audio_peak'', ''motion''},
          cand_camera = Some ''camA'' \<rparr>]
       = by_score_descending (merge_similar_candidates
           (map (anchor_clip ''camA_1.mp4'' ''camA_1'' 10 two_tag_events audio_only_config)
              (kept_anchor_events audio_only_config 10 two_tag_events)) (1/2))"
    using t by simp
  have a: "anchor_events two_tag_events = [(''audio_peak'', audio_event), (''motion'', motion_event)]"
    by (simp add: anchor_events_def two_tag_events_def audio_event_def motion_event_def
          anchor_tags_of_def ANCHOR_TAGS_def dict_get_def)
  have s: "composite_score audio_only_config 10 two_tag_events audio_event = 0.8"
    "composite_score audio_only_config 10 two_tag_events motion_event = 0.8"
    by (simp_all add: composite_score_def window_sum_def window_of_def window_bounds_def
          target_len_of_def audio_only_config_def base_config_def two_tag_events_def
          audio_event_def motion_event_def dict_get_def Let_def)
  have k: "kept_anchor_events audio_only_config 10 two_tag_events
       = [(''audio_peak'', audio_event), (''motion'', motion_event)]"
    unfolding kept_anchor_events_def a by (simp add: s)
  have w: "window_bounds audio_only_config 10 (target_len_of audio_only_config) audio_event
             = (4.625, 7.375)"
    "window_bounds audio_only_config 10 (target_len_of audio_only_config) motion_event
             = (3.625, 6.375)"
    by (simp_all add: window_bounds_def target_len_of_def audio_only_config_def base_config_def
          audio_event_def motion_event_def Let_def)
  have p: "py_round 4.625 3 = 4.625" "py_round 7.375 3 = 7.375"
    "py_round 3.625 3 = 3.625" "py_round 6.375 3 = 6.375"
    by (simp_all add: py_round_def round_half_even_def)
  have wt: "weights audio_only_config = [(''audio_peak'', 1)]"
    by (simp add: audio_only_config_def)
  have wo: "window_of audio_only_config 10 audio_event = 2.75"
    "window_of audio_only_config 10 motion_event = 2.75"
    unfolding window_of_def w by simp_all
  have g: "contributing_tags audio_only_config 10 two_tag_events audio_event = {''audio_peak''}"
    "contributing_tags audio_only_config 10 two_tag_events motion_event = {''audio_peak''}"
    unfolding contributing_tags_def window_sum_def wo wt
    by (simp_all add: two_tag_events_def audio_event_def motion_event_def dict_get_def)
  have l: "infer_camera_label ''camA_1'' = ''camA''"
    by (simp add: infer_camera_label_def)
  have c1: "anchor_clip ''camA_1.mp4'' ''camA_1'' 10 two_tag_events audio_only_config
         (''audio_peak'', audio_event)
       = \<lparr> cand_src = ''camA_1.mp4'', cand_start = 4.625, cand_end = 7.375,
           cand_score = 0.8, cand_tags = {''audio_peak''}, cand_camera = Some ''camA'' \<rparr>"
    unfolding anchor_clip_def w fst_conv snd_conv p s g l by simp
  have c2: "anchor_clip ''camA_1.mp4'' ''camA_1'' 10 two_tag_events audio_only_config
         (''motion'', motion_event)
       = \<lparr> cand_src = ''camA_1.mp4'', cand_start = 3.625, cand_end = 6.375,
           cand_score = 0.8, cand_tags = {''audio_peak'', ''motion''},
           cand_camera = Some ''camA'' \<rparr>"
    unfolding anchor_clip_def w fst_conv snd_conv p s g l by (simp add: insert_commute)
  note u = generate_candidates_tags [OF motion_only_candidates]
  have a': "anchor_events motion_only_events = [(''motion'', motion_event)]"
    by (simp add: anchor_events_def motion_only_events_def
          anchor_tags_of_def ANCHOR_TAGS_def dict_get_def)
  have z: "composite_score audio_only_config 10 motion_only_events motion_event = 0"
    by (simp add: composite_score_def audio_only_config_def motion_only_events_def dict_get_def)
  have n: "build_candidate ''camA_1.mp4'' (infer_camera_label ''camA_1'') 10
         (target_len_of audio_only_config) motion_only_events audio_only_config
         ''motion'' motion_event = None"
    using u z unfolding a' by simp
  show ?thesis
    by (intro conjI two_tag_candidates a k c1 c2 r motion_only_candidates a' z n)
qed

theorem generate_candidates_tags_counterexample:
  "validate audio_only_config = Inr ()
   \<and> map cand_tags (projr (generate_candidates ''camA_1.mp4'' ''camA_1'' 10 two_tag_events
        audio_only_config)) = [{''audio_peak''}, {''audio_peak'', ''motion''}]
   \<and> ''motion'' \<in> {''audio_peak'', ''motion''}
   \<and> \<not> 0 < dict_get (weights audio_only_config) ''motion'' 0"
proof -
  have "validate audio_only_config = Inr ()"
    by (simp add: audio_only_config_def eval_defs)
  moreover have "\<not> 0 < dict_get (weights audio_only_config) ''motion'' 0"
    by (simp add: audio_only_config_def dict_get_def)
  ultimately show ?thesis unfolding two_tag_candidates by simp
qed

section \<open>Deduplication\<close>

lemma overlaps_iff:
  "overlaps a b tol \<longleftrightarrow>
     cand_src a = cand_src b \<and> \<bar>cand_start a - cand_start b\<bar> \<le> tol
       \<and> \<bar>cand_end a - cand_end b\<bar> \<le> tol"
  by (simp add: overlaps_def Let_def)

lemma merge_loop_snoc:
  "merge_loop tol res (xs @ [c])
     = (if list_ex (\<lambda>existing. overlaps c existing tol) (merge_loop tol res xs)
        then merge_loop tol res xs else merge_loop tol res xs @ [c])"
  by (induction xs arbitrary: res) simp_all

lemma sorted_desc_sort_key:
  "sorted_wrt (\<lambda>a b. cand_score b \<le> cand_score a) (sort_key (\<lambda>c. - cand_score c) cands)"
proof -
  have "sorted (map (\<lambda>c. - cand_score c) (sort_key (\<lambda>c. - cand_score c) cands))"
    by simp
  then show ?thesis by (simp add: sorted_map)
qed

lemma generate_candidates_sorted:
  assumes "generate_candidates path stem duration ebt cfg = Inr out"
  shows "sorted_wrt (\<lambda>a b. cand_score b \<le> cand_score a) out"
proof -
  have "out = [] \<or> (\<exists>merged. out = sort_key (\<lambda>c. - cand_score c) merged)"
    using assms unfolding generate_candidates_def Let_def by (auto split: if_splits)
  then show ?thesis using sorted_desc_sort_key by auto
qed

lemma merge_two_similar:
  assumes "cand_src a = cand_src b" "\<bar>cand_start a - cand_start b\<bar> \<le> 1/2"
    "\<bar>cand_end a - cand_end b\<bar> \<le> 1/2" "cand_score a = 9/10" "cand_score b = 4/10"
  shows "merge_similar_candidates [a, b] (1/2) = [a]"
    and "merge_similar_candidates [b, a] (1/2) = [a]"
proof -
  have o: "overlaps b a (1/2)" using assms by (simp add: overlaps_iff abs_minus_commute)
  have "sort_key (\<lambda>c. - cand_score c) [a, b] = [a, b]"
    "sort_key (\<lambda>c. - cand_score c) [b, a] = [a, b]"
    using assms by simp_all
  then show "merge_similar_candidates [a, b] (1/2) = [a]"
    "merge_similar_candidates [b, a] (1/2) = [a]"
    using o by (simp_all add: merge_similar_candidates_def)
qed

text \<open>
  C6. \<open>_merge_similar_candidates\<close> processes the candidates in descending order of score
  and keeps a candidate if and only if no candidate kept before it has the same source,
  a start within the tolerance of its start and an end within the tolerance of its end
  (two separate absolute differences). Of two candidates of one source with scores 0.9
  and 0.4 whose starts and ends are within 0.5 of each other, exactly the one with score
  0.9 is kept, in whichever order they are given. The list \<open>generate_candidates\<close> returns
  is in descending order of score.
\<close>

theorem merge_similar_candidates_rule:
  "merge_similar_candidates cands tol = merge_loop tol [] (sort_key (\<lambda>c. - cand_score c) cands)
   \<and> sorted_wrt (\<lambda>a b. cand_score b \<le> cand_score a) (sort_key (\<lambda>c. - cand_score c) cands)
   \<and> set (sort_key (\<lambda>c. - cand_score c) cands) = set cands
   \<and> length (sort_key (\<lambda>c. - cand_score c) cands) = length cands
   \<and> merge_loop tol [] (xs @ [c])
       = (if \<exists>kept \<in> set (merge_loop tol [] xs).
               cand_src c = cand_src kept \<and> \<bar>cand_start c - cand_start kept\<bar> \<le> tol
                 \<and> \<bar>cand_end c - cand_end kept\<bar> \<le> tol
          then merge_loop tol [] xs else merge_loop tol [] xs @ [c])
   \<and> (cand_src a = cand_src b \<and> \<bar>cand_start a - cand_start b\<bar> \<le> 1/2
        \<and> \<bar>cand_end a - cand_end b\<bar> \<le> 1/2 \<and> cand_score a = 9/10 \<and> cand_score b = 4/10
       \<longrightarrow> merge_similar_candidates [a, b] (1/2) = [a]
         \<and> merge_similar_candidates [b, a] (1/2) = [a])
   \<and> (generate_candidates path stem duration ebt cfg = Inr out
       \<longrightarrow> sorted_wrt (\<lambda>a b. cand_score b \<le> cand_score a) out)"
proof -
  have snoc: "merge_loop tol [] (xs @ [c])
       = (if \<exists>kept \<in> set (merge_loop tol [] xs).
               cand_src c = cand_src kept \<and> \<bar>cand_start c - cand_start kept\<bar> \<le> tol
                 \<and> \<bar>cand_end c - cand_end kept\<bar> \<le> tol
          then merge_loop tol [] xs else merge_loop tol [] xs @ [c])"
    unfolding merge_loop_snoc [of tol "[]" xs c] list_ex_iff overlaps_iff by simp
  have two: "cand_src a = cand_src b \<and> \<bar>cand_start a - cand_start b\<bar> \<le> 1/2
        \<and> \<bar>cand_end a - cand_end b\<bar> \<le> 1/2 \<and> cand_score a = 9/10 \<and> cand_score b = 4/10
       \<longrightarrow> merge_similar_candidates [a, b] (1/2) = [a]
         \<and> merge_similar_candidates [b, a] (1/2) = [a]"
    using merge_two_similar [of a b] by blast
  have gen: "generate_candidates path stem duration ebt cfg = Inr out
       \<longrightarrow> sorted_wrt (\<lambda>a b. cand_score b \<le> cand_score a) out"
    using generate_candidates_sorted [of path stem duration ebt cfg out] by blast
  have def: "merge_similar_candidates cands tol
      = merge_loop tol [] (sort_key (\<lambda>c. - cand_score c) cands)"
    by (simp add: merge_similar_candidates_def)
  have perm: "set (sort_key (\<lambda>c. - cand_score c) cands) = set cands"
    "length (sort_key (\<lambda>c. - cand_score c) cands) = length cands"
    by simp_all
  show ?thesis
    using def sorted_desc_sort_key [of cands] perm snoc two gen by blast
qed

theorem merge_similar_candidates_rule_witness:
  "cand_src high_clip = cand_src low_clip
   \<and> \<bar>cand_start high_clip - cand_start low_clip\<bar> \<le> 1/2
   \<and> \<bar>cand_end high_clip - cand_end low_clip\<bar> \<le> 1/2
   \<and> cand_score high_clip = 9/10 \<and> cand_score low_clip = 4/10
   \<and> merge_similar_candidates [high_clip, low_clip] (1/2) = [high_clip]
   \<and> merge_similar_candidates [low_clip, high_clip] (1/2) = [high_clip]
   \<and> sorted_wrt (\<lambda>a b. cand_score b \<le> cand_score a)
        (projr (generate_candidates ''camA_1.mp4'' ''camA_1'' 10 two_tag_events audio_only_config))"
proof -
  have h: "cand_src high_clip = cand_src low_clip"
    "\<bar>cand_start high_clip - cand_start low_clip\<bar> \<le> 1/2"
    "\<bar>cand_end high_clip - cand_end low_clip\<bar> \<le> 1/2"
    "cand_score high_clip = 9/10" "cand_score low_clip = 4/10"
    by (simp_all add: high_clip_def low_clip_def clip_def)
  note t = merge_similar_candidates_rule
    [where a = high_clip and b = low_clip and path = "''camA_1.mp4''" and stem = "''camA_1''"
       and duration = 10 and ebt = two_tag_events and cfg = audio_only_config
       and out = "projr (generate_candidates ''camA_1.mp4'' ''camA_1'' 10 two_tag_events
                    audio_only_config)"]
  have g: "generate_candidates ''camA_1.mp4'' ''camA_1'' 10 two_tag_events audio_only_config
     = Inr (projr (generate_candidates ''camA_1.mp4'' ''camA_1'' 10 two_tag_events
                    audio_only_config))"
    unfolding two_tag_candidates by simp
  show ?thesis using t h g by blast
qed

section \<open>The filter graph\<close>

lemma length_branch_labels: "length (branch_labels kind idx cnt) = max 1 cnt"
  by (simp add: branch_labels_def)

lemma branch_labels_nonempty: "branch_labels kind idx cnt \<noteq> []"
  by (simp add: branch_labels_def)

lemma source_step_branches:
  "video_branches (source_step segs fl idx st) j
     = (if j = idx \<and> 0 < usage_count segs idx
        then Some (branch_labels ''v'' idx (usage_count segs idx)) else video_branches st j)"
  "audio_branches (source_step segs fl idx st) j
     = (if j = idx \<and> 0 < usage_count segs idx
        then Some (if dict_get fl idx True then branch_labels ''a'' idx (usage_count segs idx) else [])
        else audio_branches st j)"
  by (simp_all add: source_step_def Let_def)

lemma source_step_no_concat:
  assumes "\<forall>n \<in> set (b_lines st). \<not> is_concat_node n"
  shows "\<forall>n \<in> set (b_lines (source_step segs fl idx st)). \<not> is_concat_node n"
  using assms by (auto simp: source_step_def Let_def is_concat_node_def)

lemma source_loop_branches:
  "video_branches (source_loop segs fl idxs st) j
     = (if j \<in> set idxs \<and> 0 < usage_count segs j
        then Some (branch_labels ''v'' j (usage_count segs j)) else video_branches st j)"
  "audio_branches (source_loop segs fl idxs st) j
     = (if j \<in> set idxs \<and> 0 < usage_count segs j
        then Some (if dict_get fl j True then branch_labels ''a'' j (usage_count segs j) else [])
        else audio_branches st j)"
  by (induction idxs arbitrary: st) (auto simp: source_step_branches)

lemma source_loop_no_concat:
  assumes "\<forall>n \<in> set (b_lines st). \<not> is_concat_node n"
  shows "\<forall>n \<in> set (b_lines (source_loop segs fl idxs st)). \<not> is_concat_node n"
  using assms
proof (induction idxs arbitrary: st)
  case Nil
  then show ?case by simp
next
  case (Cons idx idxs)
  show ?case
    using Cons.IH [OF source_step_no_concat [OF Cons.prems]] by simp
qed

lemma segment_nodes_no_concat:
  "\<forall>n \<in> set (segment_nodes fl (scale_expr w h) cnt i seg k). \<not> is_concat_node n"
  by (simp add: segment_nodes_def is_concat_node_def scale_expr_def)

lemma segment_step_ok:
  assumes vb: "video_branches br (src_index seg) = Some (branch_labels ''v'' (src_index seg) cnt)"
    and vc: "video_cursor st (src_index seg) = Some k"
    and k: "k < max 1 cnt"
    and ab: "dict_get fl (src_index seg) True \<Longrightarrow>
               audio_branches br (src_index seg) = Some (branch_labels ''a'' (src_index seg) cnt)
               \<and> audio_cursor st (src_index seg) = Some k"
    and synth: "dict_get fl (src_index seg) True \<or> synth"
  shows "segment_step br fl scale synth i seg st
     = Inr \<lparr> s_lines = s_lines st @ segment_nodes fl scale cnt i seg k,
             video_cursor = (video_cursor st)(src_index seg \<mapsto> k + 1),
             audio_cursor = (if dict_get fl (src_index seg) True
                             then (audio_cursor st)(src_index seg \<mapsto> k + 1) else audio_cursor st),
             concat_inputs = concat_inputs st @ [''v'' @ show_nat i, ''a'' @ show_nat i] \<rparr>"
proof (cases "dict_get fl (src_index seg) True")
  case True
  have m: "(if p_out seg < p_in seg then p_in seg else p_out seg) = max (p_in seg) (p_out seg)"
    by (simp add: max_def)
  show ?thesis
    using vb vc k ab [OF True] True
    unfolding segment_step_def Let_def m
    by (simp add: length_branch_labels branch_labels_nonempty segment_nodes_def)
next
  case False
  have m: "(if p_out seg < p_in seg then p_in seg else p_out seg) = max (p_in seg) (p_out seg)"
    by (simp add: max_def)
  show ?thesis
    using vb vc k False synth
    unfolding segment_step_def Let_def m
    by (simp add: length_branch_labels branch_labels_nonempty segment_nodes_def)
qed

lemma usage_count_append:
  "usage_count (xs @ ys) idx = usage_count xs idx + usage_count ys idx"
  by (simp add: usage_count_def)

lemma usage_count_pos: "seg \<in> set segs \<Longrightarrow> 0 < usage_count segs (src_index seg)"
  by (auto simp: usage_count_def filter_empty_conv)

lemma segment_loop_ok:
  assumes segs: "segs = done @ rest"
    and br_v: "\<forall>seg \<in> set segs. video_branches br (src_index seg)
                 = Some (branch_labels ''v'' (src_index seg) (usage_count segs (src_index seg)))"
    and br_a: "\<forall>seg \<in> set segs. dict_get fl (src_index seg) True \<longrightarrow>
                 audio_branches br (src_index seg)
                 = Some (branch_labels ''a'' (src_index seg) (usage_count segs (src_index seg)))"
    and cur_v: "\<forall>seg \<in> set rest. video_cursor st (src_index seg)
                 = Some (usage_count done (src_index seg))"
    and cur_a: "\<forall>seg \<in> set rest. dict_get fl (src_index seg) True \<longrightarrow>
                 audio_cursor st (src_index seg) = Some (usage_count done (src_index seg))"
    and synth: "\<forall>seg \<in> set rest. dict_get fl (src_index seg) True \<or> synth"
  shows "\<exists>st'. segment_loop br fl scale synth (enumerate (length done) rest) st = Inr st'
      \<and> s_lines st' = s_lines st @ concat (map (\<lambda>j. segment_nodes fl scale
             (usage_count segs (src_index (segs ! j))) j (segs ! j) (occurrence segs j))
           [length done..<length segs])
      \<and> concat_inputs st' = concat_inputs st
           @ concat (map (\<lambda>j. [''v'' @ show_nat j, ''a'' @ show_nat j]) [length done..<length segs])"
  using assms
proof (induction rest arbitrary: "done" st)
  case Nil
  then show ?case by simp
next
  case (Cons seg rest)
  define src where "src = src_index seg"
  define k where "k = usage_count done src"
  define cnt where "cnt = usage_count segs src"
  have segs: "segs = done @ seg # rest" by (rule Cons.prems(1))
  have at: "segs ! length done = seg" "take (length done) segs = done"
    unfolding segs by simp_all
  have occ: "occurrence segs (length done) = k"
    unfolding occurrence_def at k_def src_def ..
  have "cnt = k + 1 + usage_count rest src"
    unfolding cnt_def k_def segs usage_count_append
    by (simp add: usage_count_def src_def)
  then have klt: "k < max 1 cnt" by simp
  have mem: "seg \<in> set segs" unfolding segs by simp
  have vb: "video_branches br (src_index seg) = Some (branch_labels ''v'' (src_index seg) cnt)"
    using Cons.prems(2) mem unfolding cnt_def src_def by blast
  have vc: "video_cursor st (src_index seg) = Some k"
    using Cons.prems(4) unfolding k_def src_def by simp
  have ab: "dict_get fl (src_index seg) True \<Longrightarrow>
               audio_branches br (src_index seg) = Some (branch_labels ''a'' (src_index seg) cnt)
               \<and> audio_cursor st (src_index seg) = Some k"
    using Cons.prems(3) Cons.prems(5) mem unfolding cnt_def k_def src_def by simp
  have sy: "dict_get fl (src_index seg) True \<or> synth"
    using Cons.prems(6) by auto
  define st1 where "st1 = \<lparr> s_lines = s_lines st @ segment_nodes fl scale cnt (length done) seg k,
             video_cursor = (video_cursor st)(src_index seg \<mapsto> k + 1),
             audio_cursor = (if dict_get fl (src_index seg) True
                             then (audio_cursor st)(src_index seg \<mapsto> k + 1) else audio_cursor st),
             concat_inputs = concat_inputs st
               @ [''v'' @ show_nat (length done), ''a'' @ show_nat (length done)] \<rparr>"
  have step: "segment_step br fl scale synth (length done) seg st = Inr st1"
    unfolding st1_def by (rule segment_step_ok [OF vb vc klt ab sy])
  have segs': "segs = (done @ [seg]) @ rest" unfolding segs by simp
  have cv: "\<forall>s \<in> set rest. video_cursor st1 (src_index s)
                 = Some (usage_count (done @ [seg]) (src_index s))"
  proof
    fix s assume s: "s \<in> set rest"
    then have "video_cursor st (src_index s) = Some (usage_count done (src_index s))"
      using Cons.prems(4) by simp
    then show "video_cursor st1 (src_index s) = Some (usage_count (done @ [seg]) (src_index s))"
      unfolding st1_def usage_count_append
      by (auto simp: usage_count_def k_def src_def)
  qed
  have ca: "\<forall>s \<in> set rest. dict_get fl (src_index s) True \<longrightarrow>
                 audio_cursor st1 (src_index s) = Some (usage_count (done @ [seg]) (src_index s))"
  proof (intro ballI impI)
    fix s assume s: "s \<in> set rest" and f: "dict_get fl (src_index s) True"
    then have "audio_cursor st (src_index s) = Some (usage_count done (src_index s))"
      using Cons.prems(5) by simp
    then show "audio_cursor st1 (src_index s) = Some (usage_count (done @ [seg]) (src_index s))"
      using f unfolding st1_def usage_count_append
      by (auto simp: usage_count_def k_def src_def)
  qed
  have sy': "\<forall>s \<in> set rest. dict_get fl (src_index s) True \<or> synth"
    using Cons.prems(6) by auto
  from Cons.IH [OF segs' Cons.prems(2) Cons.prems(3) cv ca sy']
  obtain st' where
    loop: "segment_loop br fl scale synth (enumerate (length (done @ [seg])) rest) st1 = Inr st'"
    and lines: "s_lines st' = s_lines st1 @ concat (map (\<lambda>j. segment_nodes fl scale
             (usage_count segs (src_index (segs ! j))) j (segs ! j) (occurrence segs j))
           [length (done @ [seg])..<length segs])"
    and ci: "concat_inputs st' = concat_inputs st1
           @ concat (map (\<lambda>j. [''v'' @ show_nat j, ''a'' @ show_nat j])
               [length (done @ [seg])..<length segs])"
    by blast
  have lt: "length done < length segs" unfolding segs by simp
  have upt: "[length done..<length segs] = length done # [Suc (length done)..<length segs]"
    using lt by (simp add: upt_conv_Cons)
  have "segment_loop br fl scale synth (enumerate (length done) (seg # rest)) st = Inr st'"
    using step loop by simp
  moreover have "s_lines st' = s_lines st @ concat (map (\<lambda>j. segment_nodes fl scale
             (usage_count segs (src_index (segs ! j))) j (segs ! j) (occurrence segs j))
           [length done..<length segs])"
    unfolding lines upt by (simp add: st1_def at occ cnt_def src_def)
  moreover have "concat_inputs st' = concat_inputs st
           @ concat (map (\<lambda>j. [''v'' @ show_nat j, ''a'' @ show_nat j]) [length done..<length segs])"
    unfolding ci upt by (simp add: st1_def)
  ultimately show ?case by blast
qed

lemma occurrence_less:
  assumes "i < length segs"
  shows "occurrence segs i < usage_count segs (src_index (segs ! i))"
proof -
  have "segs = take i segs @ segs ! i # drop (Suc i) segs"
    using assms by (rule id_take_nth_drop)
  then have "usage_count segs (src_index (segs ! i))
      = usage_count (take i segs) (src_index (segs ! i))
        + usage_count (segs ! i # drop (Suc i) segs) (src_index (segs ! i))"
    using usage_count_append [of "take i segs" "segs ! i # drop (Suc i) segs"] by simp
  then show ?thesis by (simp add: occurrence_def usage_count_def)
qed

lemma branch_labels_nth:
  assumes "k < cnt"
  shows "branch_labels kind idx cnt ! k
     = (if 1 < cnt then kind @ show_int idx @ ''b'' @ show_nat k else kind @ show_int idx @ ''base'')"
proof (cases "1 < cnt")
  case True
  then show ?thesis using assms by (simp add: branch_labels_def)
next
  case False
  then have "k = 0" using assms by simp
  then show ?thesis using False by (simp add: branch_labels_def)
qed

lemma build_filter_lines_ok:
  assumes range: "\<forall>seg \<in> set segs. 0 \<le> src_index seg \<and> src_index seg < inputs_count"
    and audio: "synth_silence
                \<or> (\<forall>seg \<in> set segs. dict_get (audio_flags_of source_audio inputs_count)
                                        (src_index seg) True)"
  shows "\<exists>pre post.
      build_filter_lines segs inputs_count logo_idx width height source_audio corner safe
        loudnorm synth_silence
        = Inr (pre @ concat (map (\<lambda>j. segment_nodes (audio_flags_of source_audio inputs_count)
                   (scale_expr width height) (usage_count segs (src_index (segs ! j))) j (segs ! j)
                   (occurrence segs j)) [0..<length segs])
               @ [concat_node (length segs)] @ post)
      \<and> (\<forall>n \<in> set pre. \<not> is_concat_node n) \<and> (\<forall>n \<in> set post. \<not> is_concat_node n)"
proof -
  define fl where "fl = audio_flags_of source_audio inputs_count"
  define br where "br = source_loop segs fl [0..inputs_count - 1]
      \<lparr> b_lines = [], video_branches = (\<lambda>_. None), audio_branches = (\<lambda>_. None) \<rparr>"
  define st0 where "st0 = \<lparr> s_lines = b_lines br,
                  video_cursor = (\<lambda>idx. map_option (\<lambda>_. 0 :: nat) (video_branches br idx)),
                  audio_cursor = (\<lambda>idx. map_option (\<lambda>_. 0 :: nat) (audio_branches br idx)),
                  concat_inputs = [] \<rparr>"
  have inr: "src_index seg \<in> set [0..inputs_count - 1] \<and> 0 < usage_count segs (src_index seg)"
    if "seg \<in> set segs" for seg
    using range that usage_count_pos [of seg segs] by auto
  have br_v: "\<forall>seg \<in> set segs. video_branches br (src_index seg)
                 = Some (branch_labels ''v'' (src_index seg) (usage_count segs (src_index seg)))"
    unfolding br_def source_loop_branches using inr by simp
  have br_a: "\<forall>seg \<in> set segs. dict_get fl (src_index seg) True \<longrightarrow>
                 audio_branches br (src_index seg)
                 = Some (branch_labels ''a'' (src_index seg) (usage_count segs (src_index seg)))"
    unfolding br_def source_loop_branches using inr by simp
  have cur_v: "\<forall>seg \<in> set segs. video_cursor st0 (src_index seg)
                 = Some (usage_count [] (src_index seg))"
    using br_v by (simp add: st0_def usage_count_def)
  have cur_a: "\<forall>seg \<in> set segs. dict_get fl (src_index seg) True \<longrightarrow>
                 audio_cursor st0 (src_index seg) = Some (usage_count [] (src_index seg))"
    using br_a by (simp add: st0_def usage_count_def)
  have sy: "\<forall>seg \<in> set segs. dict_get fl (src_index seg) True \<or> synth_silence"
    using audio unfolding fl_def by blast
  have "segs = [] @ segs" by simp
  from segment_loop_ok [OF this br_v br_a cur_v cur_a sy, of "scale_expr width height"]
  obtain st' where
    loop: "segment_loop br fl (scale_expr width height) synth_silence (enumerate 0 segs) st0 = Inr st'"
    and lines: "s_lines st' = b_lines br @ concat (map (\<lambda>j. segment_nodes fl (scale_expr width height)
             (usage_count segs (src_index (segs ! j))) j (segs ! j) (occurrence segs j))
           [0..<length segs])"
    and ci: "concat_inputs st' = concat (map (\<lambda>j. [''v'' @ show_nat j, ''a'' @ show_nat j])
               [0..<length segs])"
    by (auto simp: st0_def)
  define post where "post =
      (case logo_idx of
         Some l \<Rightarrow>
           [\<lparr> n_inputs = [''vcat'', show_int l],
              n_filter = ''overlay=x='' @ fst (logo_coordinates safe corner)
                @ '':y='' @ snd (logo_coordinates safe corner) @ '':format=auto'',
              n_outputs = [''vo''] \<rparr>]
       | None \<Rightarrow> [])
      @ [\<lparr> n_inputs = [case logo_idx of Some l \<Rightarrow> ''vo'' | None \<Rightarrow> ''vcat''],
            n_filter = ''format=yuv420p'', n_outputs = [''vout''] \<rparr>,
         (if loudnorm
          then \<lparr> n_inputs = [''acat''], n_filter = ''loudnorm=I=-14:TP=-1.0:LRA=11'',
                 n_outputs = [''aout''] \<rparr>
          else \<lparr> n_inputs = [''acat''], n_filter = ''anorm=2'', n_outputs = [''aout''] \<rparr>)]"
  have "build_filter_lines segs inputs_count logo_idx width height source_audio corner safe
        loudnorm synth_silence
      = Inr (s_lines st' @ [\<lparr> n_inputs = concat_inputs st',
                  n_filter = ''concat=n='' @ show_nat (length segs) @ '':v=1:a=1'',
                  n_outputs = [''vcat'', ''acat''] \<rparr>] @ post)"
    unfolding build_filter_lines_def Let_def fl_def [symmetric] br_def [symmetric]
      st0_def [symmetric] loop post_def
    by simp
  then have eq: "build_filter_lines segs inputs_count logo_idx width height source_audio corner safe
        loudnorm synth_silence
      = Inr (b_lines br @ concat (map (\<lambda>j. segment_nodes fl (scale_expr width height)
             (usage_count segs (src_index (segs ! j))) j (segs ! j) (occurrence segs j))
           [0..<length segs]) @ [concat_node (length segs)] @ post)"
    unfolding lines ci concat_node_def by simp
  have pre_ok: "\<forall>n \<in> set (b_lines br). \<not> is_concat_node n"
    unfolding br_def by (rule source_loop_no_concat) simp
  have post_ok: "\<forall>n \<in> set post. \<not> is_concat_node n"
    unfolding post_def by (auto simp: is_concat_node_def split: option.splits)
  show ?thesis
    using eq pre_ok post_ok unfolding fl_def by blast
qed

lemma filter_concat_segment_nodes:
  "filter is_concat_node (concat (map (\<lambda>j. segment_nodes fl (scale_expr w h) (c j) j (g j) (oc j)) js))
     = []"
  using segment_nodes_no_concat by (induction js) (auto simp: filter_empty_conv)

lemma is_concat_concat_node: "is_concat_node (concat_node n)"
  by (simp add: is_concat_node_def concat_node_def)

lemma source_step_lines:
  "b_lines (source_step segs fl idx st) = b_lines st @ source_nodes segs fl idx"
  by (simp add: source_step_def source_nodes_def Let_def video_base_node_def
      video_split_node_def audio_base_node_def audio_split_node_def branch_labels_def)

lemma source_loop_lines:
  "b_lines (source_loop segs fl idxs st) = b_lines st @ concat (map (source_nodes segs fl) idxs)"
  by (induction idxs arbitrary: st) (simp_all add: source_step_lines)

lemma video_branch_labels:
  assumes "k < cnt"
  shows "branch_labels ''v'' idx cnt ! k = video_branch idx cnt k"
    and "branch_labels ''a'' idx cnt ! k = audio_branch idx cnt k"
  using assms
  by (simp_all add: branch_labels_nth video_branch_def audio_branch_def video_split_node_def
      audio_split_node_def video_base_node_def audio_base_node_def)

lemma segment_nodes_trim:
  assumes "k < cnt"
  shows "segment_nodes fl scale cnt i seg k ! 0 = video_trim_node (video_branch (src_index seg) cnt k) i seg"
    and "dict_get fl (src_index seg) True \<Longrightarrow>
           segment_nodes fl scale cnt i seg k ! 2
             = audio_trim_node (audio_branch (src_index seg) cnt k) i seg"
  using video_branch_labels [OF assms]
  by (simp_all add: segment_nodes_def video_trim_node_def audio_trim_node_def)

lemma length_segment_nodes: "length (segment_nodes fl scale cnt i seg k) = 3"
  by (simp add: segment_nodes_def)

lemma occurrence_take:
  "occurrence segs i = length (filter (\<lambda>s. src_index s = src_index (segs ! i)) (take i segs))"
  by (simp add: occurrence_def usage_count_def)

lemma occurrence_mono:
  assumes "j < i" "i < length segs" "src_index (segs ! j) = src_index (segs ! i)"
  shows "occurrence segs j < occurrence segs i"
proof -
  have j: "j < length (take i segs)" using assms by simp
  have "take i segs = take j (take i segs) @ take i segs ! j # drop (Suc j) (take i segs)"
    using j by (rule id_take_nth_drop)
  moreover have "take j (take i segs) = take j segs" using assms by (simp add: min_def)
  moreover have "take i segs ! j = segs ! j" using assms by simp
  ultimately have "take i segs = take j segs @ segs ! j # drop (Suc j) (take i segs)"
    by simp
  then have "usage_count (take i segs) (src_index (segs ! i))
      = usage_count (take j segs) (src_index (segs ! i))
        + usage_count (segs ! j # drop (Suc j) (take i segs)) (src_index (segs ! i))"
    using usage_count_append [of "take j segs" "segs ! j # drop (Suc j) (take i segs)"] by simp
  then show ?thesis
    using assms(3) by (simp add: occurrence_def usage_count_def)
qed

lemma source_nodes_no_concat: "\<forall>n \<in> set (source_nodes segs fl idx). \<not> is_concat_node n"
  by (auto simp: source_nodes_def is_concat_node_def video_base_node_def video_split_node_def
      audio_base_node_def audio_split_node_def)

lemma closing_nodes_no_concat:
  "\<forall>n \<in> set (closing_nodes logo_idx corner safe loudnorm). \<not> is_concat_node n"
  by (auto simp: closing_nodes_def is_concat_node_def split: option.splits)

lemma build_filter_lines_nodes:
  assumes range: "\<forall>seg \<in> set segs. 0 \<le> src_index seg \<and> src_index seg < inputs_count"
    and audio: "synth_silence
                \<or> (\<forall>seg \<in> set segs. dict_get (audio_flags_of source_audio inputs_count)
                                        (src_index seg) True)"
  shows "build_filter_lines segs inputs_count logo_idx width height source_audio corner safe
        loudnorm synth_silence
        = Inr (concat (map (source_nodes segs (audio_flags_of source_audio inputs_count))
                 [0..inputs_count - 1])
               @ concat (map (\<lambda>j. segment_nodes (audio_flags_of source_audio inputs_count)
                   (scale_expr width height) (usage_count segs (src_index (segs ! j))) j (segs ! j)
                   (occurrence segs j)) [0..<length segs])
               @ [concat_node (length segs)] @ closing_nodes logo_idx corner safe loudnorm)"
proof -
  define fl where "fl = audio_flags_of source_audio inputs_count"
  define br where "br = source_loop segs fl [0..inputs_count - 1]
      \<lparr> b_lines = [], video_branches = (\<lambda>_. None), audio_branches = (\<lambda>_. None) \<rparr>"
  define st0 where "st0 = \<lparr> s_lines = b_lines br,
                  video_cursor = (\<lambda>idx. map_option (\<lambda>_. 0 :: nat) (video_branches br idx)),
                  audio_cursor = (\<lambda>idx. map_option (\<lambda>_. 0 :: nat) (audio_branches br idx)),
                  concat_inputs = [] \<rparr>"
  have inr: "src_index seg \<in> set [0..inputs_count - 1] \<and> 0 < usage_count segs (src_index seg)"
    if "seg \<in> set segs" for seg
    using range that usage_count_pos [of seg segs] by auto
  have br_v: "\<forall>seg \<in> set segs. video_branches br (src_index seg)
                 = Some (branch_labels ''v'' (src_index seg) (usage_count segs (src_index seg)))"
    unfolding br_def source_loop_branches using inr by simp
  have br_a: "\<forall>seg \<in> set segs. dict_get fl (src_index seg) True \<longrightarrow>
                 audio_branches br (src_index seg)
                 = Some (branch_labels ''a'' (src_index seg) (usage_count segs (src_index seg)))"
    unfolding br_def source_loop_branches using inr by simp
  have cur_v: "\<forall>seg \<in> set segs. video_cursor st0 (src_index seg)
                 = Some (usage_count [] (src_index seg))"
    using br_v by (simp add: st0_def usage_count_def)
  have cur_a: "\<forall>seg \<in> set segs. dict_get fl (src_index seg) True \<longrightarrow>
                 audio_cursor st0 (src_index seg) = Some (usage_count [] (src_index seg))"
    using br_a by (simp add: st0_def usage_count_def)
  have sy: "\<forall>seg \<in> set segs. dict_get fl (src_index seg) True \<or> synth_silence"
    using audio unfolding fl_def by blast
  have "segs = [] @ segs" by simp
  from segment_loop_ok [OF this br_v br_a cur_v cur_a sy, of "scale_expr width height"]
  obtain st' where
    loop: "segment_loop br fl (scale_expr width height) synth_silence (enumerate 0 segs) st0 = Inr st'"
    and lines: "s_lines st' = b_lines br @ concat (map (\<lambda>j. segment_nodes fl (scale_expr width height)
             (usage_count segs (src_index (segs ! j))) j (segs ! j) (occurrence segs j))
           [0..<length segs])"
    and ci: "concat_inputs st' = concat (map (\<lambda>j. [''v'' @ show_nat j, ''a'' @ show_nat j])
               [0..<length segs])"
    by (auto simp: st0_def)
  have pre: "b_lines br = concat (map (source_nodes segs fl) [0..inputs_count - 1])"
    unfolding br_def source_loop_lines by simp
  have "build_filter_lines segs inputs_count logo_idx width height source_audio corner safe
        loudnorm synth_silence
      = Inr (s_lines st' @ [\<lparr> n_inputs = concat_inputs st',
                  n_filter = ''concat=n='' @ show_nat (length segs) @ '':v=1:a=1'',
                  n_outputs = [''vcat'', ''acat''] \<rparr>] @ closing_nodes logo_idx corner safe loudnorm)"
    unfolding build_filter_lines_def Let_def fl_def [symmetric] br_def [symmetric]
      st0_def [symmetric] loop closing_nodes_def
    by simp
  then show ?thesis
    unfolding lines ci pre fl_def concat_node_def by simp
qed


lemma filter_concat_source_nodes:
  "filter is_concat_node (concat (map (source_nodes segs fl) idxs)) = []"
  using source_nodes_no_concat by (induction idxs) (auto simp: filter_empty_conv)

lemma source_nodes_mem:
  assumes "seg \<in> set segs" and "0 \<le> src_index seg \<and> src_index seg < inputs_count"
  shows "set (source_nodes segs fl (src_index seg))
     \<subseteq> set (concat (map (source_nodes segs fl) [0..inputs_count - 1]))"
  using assms by auto

lemma source_nodes_members:
  assumes "0 < usage_count segs idx"
  shows "video_base_node idx \<in> set (source_nodes segs fl idx)"
    and "1 < usage_count segs idx \<Longrightarrow>
           video_split_node idx (usage_count segs idx) \<in> set (source_nodes segs fl idx)"
    and "dict_get fl idx True \<Longrightarrow> audio_base_node idx \<in> set (source_nodes segs fl idx)"
    and "dict_get fl idx True \<Longrightarrow> 1 < usage_count segs idx \<Longrightarrow>
           audio_split_node idx (usage_count segs idx) \<in> set (source_nodes segs fl idx)"
  using assms by (simp_all add: source_nodes_def)

lemma segment_nodes_mem:
  assumes "i < length segs"
  shows "set (f i) \<subseteq> set (concat (map f [0..<length segs]))"
  using assms by auto

text \<open>
  C9. When every segment's source index is one of the inputs (and audio is present or
  silence is synthesised), \<open>build_filter_complex\<close> returns the graph whose lines are, in
  this order: for each used source its base node and, when it is used more than once,
  the split of that base into one branch per use (the same for its audio); the nodes of
  the segments in the order of the list; one concatenation node; the closing nodes. The
  graph has exactly one concatenation node; it is \<open>concat=n=N\<close> for the number \<open>N\<close> of
  segments and reads \<open>[v0][a0][v1][a1]...\<close> in the order of the list. For segment \<open>i\<close>, let
  \<open>k\<close> be the number of earlier segments of the list that reference its source. The
  source's base node is in the graph; when the source is used more than once its split
  node is in the graph, with one output per use, and the trim node of segment \<open>i\<close>, which
  is in the graph, reads output number \<open>k\<close> of that split; when the source is used once
  the trim reads the base label. The audio trim reads output number \<open>k\<close> of the audio
  split in the same way. Two segments of one source read different branches, the earlier
  one the lower one.
\<close>

theorem build_filter_complex_graph:
  assumes "\<forall>seg \<in> set segs. 0 \<le> src_index seg \<and> src_index seg < inputs_count"
    and "synth_silence
          \<or> (\<forall>seg \<in> set segs. dict_get (audio_flags_of source_audio inputs_count)
                                  (src_index seg) True)"
  shows "\<exists>nodes.
       build_filter_lines segs inputs_count logo_idx width height source_audio corner safe
         loudnorm synth_silence = Inr nodes
     \<and> build_filter_complex segs inputs_count logo_idx width height source_audio corner safe
         loudnorm synth_silence = Inr (join '';'' (map render_node nodes), ''[vout]'', ''[aout]'')
     \<and> nodes = concat (map (source_nodes segs (audio_flags_of source_audio inputs_count))
                  [0..inputs_count - 1])
         @ concat (map (\<lambda>i. segment_nodes (audio_flags_of source_audio inputs_count)
                   (scale_expr width height) (usage_count segs (src_index (segs ! i))) i (segs ! i)
                   (occurrence segs i)) [0..<length segs])
         @ [concat_node (length segs)] @ closing_nodes logo_idx corner safe loudnorm
     \<and> length (filter is_concat_node nodes) = 1
     \<and> n_filter (concat_node (length segs)) = ''concat=n='' @ show_nat (length segs) @ '':v=1:a=1''
     \<and> n_inputs (concat_node (length segs))
         = concat (map (\<lambda>i. [''v'' @ show_nat i, ''a'' @ show_nat i]) [0..<length segs])
     \<and> (\<forall>i < length segs.
           occurrence segs i
             = length (filter (\<lambda>s. src_index s = src_index (segs ! i)) (take i segs))
         \<and> occurrence segs i < usage_count segs (src_index (segs ! i))
         \<and> (\<forall>j < i. src_index (segs ! j) = src_index (segs ! i) \<longrightarrow>
                occurrence segs j < occurrence segs i)
         \<and> video_base_node (src_index (segs ! i)) \<in> set nodes
         \<and> (1 < usage_count segs (src_index (segs ! i)) \<longrightarrow>
               video_split_node (src_index (segs ! i)) (usage_count segs (src_index (segs ! i)))
                 \<in> set nodes
             \<and> length (n_outputs (video_split_node (src_index (segs ! i))
                   (usage_count segs (src_index (segs ! i)))))
                 = usage_count segs (src_index (segs ! i))
             \<and> video_trim_node
                 (n_outputs (video_split_node (src_index (segs ! i))
                    (usage_count segs (src_index (segs ! i)))) ! occurrence segs i)
                 i (segs ! i) \<in> set nodes)
         \<and> (usage_count segs (src_index (segs ! i)) = 1 \<longrightarrow>
               video_trim_node (hd (n_outputs (video_base_node (src_index (segs ! i))))) i (segs ! i)
                 \<in> set nodes)
         \<and> (dict_get (audio_flags_of source_audio inputs_count) (src_index (segs ! i)) True \<longrightarrow>
               audio_base_node (src_index (segs ! i)) \<in> set nodes
             \<and> (1 < usage_count segs (src_index (segs ! i)) \<longrightarrow>
                   audio_split_node (src_index (segs ! i)) (usage_count segs (src_index (segs ! i)))
                     \<in> set nodes
                 \<and> audio_trim_node
                     (n_outputs (audio_split_node (src_index (segs ! i))
                        (usage_count segs (src_index (segs ! i)))) ! occurrence segs i)
                     i (segs ! i) \<in> set nodes)
             \<and> (usage_count segs (src_index (segs ! i)) = 1 \<longrightarrow>
                   audio_trim_node (hd (n_outputs (audio_base_node (src_index (segs ! i))))) i
                     (segs ! i) \<in> set nodes)))"
proof -
  define fl where "fl = audio_flags_of source_audio inputs_count"
  define src where "src = (\<lambda>i. src_index (segs ! i))"
  define cnt where "cnt = (\<lambda>i. usage_count segs (src i))"
  define sn where "sn = (\<lambda>i. segment_nodes fl (scale_expr width height) (cnt i) i (segs ! i)
                   (occurrence segs i))"
  define nodes where "nodes = concat (map (source_nodes segs fl) [0..inputs_count - 1])
      @ concat (map sn [0..<length segs])
      @ [concat_node (length segs)] @ closing_nodes logo_idx corner safe loudnorm"
  have eq: "build_filter_lines segs inputs_count logo_idx width height source_audio corner safe
         loudnorm synth_silence = Inr nodes"
    unfolding nodes_def sn_def cnt_def src_def fl_def
    using assms by (rule build_filter_lines_nodes)
  have fc: "build_filter_complex segs inputs_count logo_idx width height source_audio corner safe
         loudnorm synth_silence = Inr (join '';'' (map render_node nodes), ''[vout]'', ''[aout]'')"
    unfolding build_filter_complex_def eq by simp
  have fs: "filter is_concat_node (concat (map sn [0..<length segs])) = []"
    unfolding sn_def by (rule filter_concat_segment_nodes)
  have fp: "filter is_concat_node (closing_nodes logo_idx corner safe loudnorm) = []"
    using closing_nodes_no_concat by (simp add: filter_empty_conv)
  have one: "length (filter is_concat_node nodes) = 1"
    unfolding nodes_def
    by (simp add: fs fp filter_concat_source_nodes is_concat_concat_node)
  have cn: "n_filter (concat_node (length segs)) = ''concat=n='' @ show_nat (length segs) @ '':v=1:a=1''"
    "n_inputs (concat_node (length segs))
         = concat (map (\<lambda>i. [''v'' @ show_nat i, ''a'' @ show_nat i]) [0..<length segs])"
    by (simp_all add: concat_node_def)
  have per: "occurrence segs i
             = length (filter (\<lambda>s. src_index s = src i) (take i segs))
         \<and> occurrence segs i < cnt i
         \<and> (\<forall>j < i. src j = src i \<longrightarrow> occurrence segs j < occurrence segs i)
         \<and> video_base_node (src i) \<in> set nodes
         \<and> (1 < cnt i \<longrightarrow>
               video_split_node (src i) (cnt i) \<in> set nodes
             \<and> length (n_outputs (video_split_node (src i) (cnt i))) = cnt i
             \<and> video_trim_node (n_outputs (video_split_node (src i) (cnt i)) ! occurrence segs i)
                 i (segs ! i) \<in> set nodes)
         \<and> (cnt i = 1 \<longrightarrow>
               video_trim_node (hd (n_outputs (video_base_node (src i)))) i (segs ! i) \<in> set nodes)
         \<and> (dict_get fl (src i) True \<longrightarrow>
               audio_base_node (src i) \<in> set nodes
             \<and> (1 < cnt i \<longrightarrow>
                   audio_split_node (src i) (cnt i) \<in> set nodes
                 \<and> audio_trim_node (n_outputs (audio_split_node (src i) (cnt i)) ! occurrence segs i)
                     i (segs ! i) \<in> set nodes)
             \<and> (cnt i = 1 \<longrightarrow>
                   audio_trim_node (hd (n_outputs (audio_base_node (src i)))) i (segs ! i)
                     \<in> set nodes))"
    if i: "i < length segs" for i
  proof -
    have mem: "segs ! i \<in> set segs" using i by simp
    have pos: "0 < cnt i" unfolding cnt_def src_def using mem by (rule usage_count_pos)
    have lt: "occurrence segs i < cnt i"
      unfolding cnt_def src_def using i by (rule occurrence_less)
    have rng: "0 \<le> src_index (segs ! i) \<and> src_index (segs ! i) < inputs_count"
      using assms(1) mem by blast
    have sub1: "set (source_nodes segs fl (src i)) \<subseteq> set nodes"
      using source_nodes_mem [OF mem rng, of fl] unfolding nodes_def src_def by auto
    have sub2: "set (sn i) \<subseteq> set nodes"
      using segment_nodes_mem [OF i, of sn] unfolding nodes_def by auto
    have t0: "sn i ! 0 \<in> set nodes" and t2: "sn i ! 2 \<in> set nodes"
      using sub2 nth_mem [of 0 "sn i"] nth_mem [of 2 "sn i"]
      unfolding sn_def by (auto simp: length_segment_nodes)
    have v: "video_trim_node (video_branch (src i) (cnt i) (occurrence segs i)) i (segs ! i)
        \<in> set nodes"
      using t0 segment_nodes_trim(1) [OF lt, of fl "scale_expr width height" i "segs ! i"]
      unfolding sn_def src_def by simp
    have a: "audio_trim_node (audio_branch (src i) (cnt i) (occurrence segs i)) i (segs ! i)
        \<in> set nodes" if "dict_get fl (src i) True"
      using t2 that segment_nodes_trim(2) [OF lt, of fl "segs ! i" "scale_expr width height" i]
      unfolding sn_def src_def by simp
    have mono: "\<forall>j < i. src j = src i \<longrightarrow> occurrence segs j < occurrence segs i"
      using occurrence_mono [OF _ i] unfolding src_def by blast
    have len: "length (n_outputs (video_split_node (src i) (cnt i))) = cnt i"
      by (simp add: video_split_node_def)
    have o: "occurrence segs i = length (filter (\<lambda>s. src_index s = src i) (take i segs))"
      unfolding src_def by (rule occurrence_take)
    have c: "usage_count segs (src i) = cnt i" by (simp add: cnt_def)
    note m = source_nodes_members [OF pos [unfolded cnt_def], of fl, unfolded c]
    have vb: "video_base_node (src i) \<in> set nodes"
      using m(1) sub1 by blast
    have vs: "video_split_node (src i) (cnt i) \<in> set nodes" if "1 < cnt i"
      using m(2) [OF that] sub1 by blast
    have vt1: "video_trim_node (n_outputs (video_split_node (src i) (cnt i)) ! occurrence segs i)
        i (segs ! i) \<in> set nodes" if "1 < cnt i"
      using v that by (simp add: video_branch_def)
    have vt2: "video_trim_node (hd (n_outputs (video_base_node (src i)))) i (segs ! i) \<in> set nodes"
      if "cnt i = 1"
      using v that by (simp add: video_branch_def)
    have ab: "audio_base_node (src i) \<in> set nodes" if "dict_get fl (src i) True"
      using m(3) [OF that] sub1 by blast
    have as: "audio_split_node (src i) (cnt i) \<in> set nodes"
      if "dict_get fl (src i) True" "1 < cnt i"
      using m(4) [OF that] sub1 by blast
    have at1: "audio_trim_node (n_outputs (audio_split_node (src i) (cnt i)) ! occurrence segs i)
        i (segs ! i) \<in> set nodes" if "dict_get fl (src i) True" "1 < cnt i"
      using a [OF that(1)] that(2) by (simp add: audio_branch_def)
    have at2: "audio_trim_node (hd (n_outputs (audio_base_node (src i)))) i (segs ! i) \<in> set nodes"
      if "dict_get fl (src i) True" "cnt i = 1"
      using a [OF that(1)] that(2) by (simp add: audio_branch_def)
    show ?thesis
      using o lt mono vb vs len vt1 vt2 ab as at1 at2 by blast
  qed
  show ?thesis
    using eq fc one cn per
    unfolding nodes_def sn_def cnt_def src_def fl_def
    by blast
qed


theorem build_filter_complex_graph_witness:
  "src_index (graph_test_segments ! 0) = 0 \<and> src_index (graph_test_segments ! 1) = 1
   \<and> src_index (graph_test_segments ! 2) = 0 \<and> length graph_test_segments = 3
   \<and> occurrence graph_test_segments 0 = 0
   \<and> occurrence graph_test_segments 2 = 1
   \<and> usage_count graph_test_segments 0 = 2
   \<and> map render_node (projr (build_filter_lines graph_test_segments 2 None 1080 1920
        (Some [(0, True), (1, True)]) ''bottom_right'' 0.8 True True))
       = [''[0:v]setsar=1[v0base]'',
          ''[v0base]split=2[v0b0][v0b1]'',
          ''[0:a]aresample=48000,aformat=channel_layouts=stereo[a0base]'',
          ''[a0base]asplit=2[a0b0][a0b1]'',
          ''[1:v]setsar=1[v1base]'',
          ''[1:a]aresample=48000,aformat=channel_layouts=stereo[a1base]'',
          ''[v0b0]trim=start=1.000:end=2.000,setpts=PTS-STARTPTS[vtrim0]'',
          ''[vtrim0]'' @ scale_expr 1080 1920 @ '',setsar=1[v0]'',
          ''[a0b0]atrim=start=1.000:end=2.000,asetpts=PTS-STARTPTS[a0]'',
          ''[v1base]trim=start=3.000:end=4.000,setpts=PTS-STARTPTS[vtrim1]'',
          ''[vtrim1]'' @ scale_expr 1080 1920 @ '',setsar=1[v1]'',
          ''[a1base]atrim=start=3.000:end=4.000,asetpts=PTS-STARTPTS[a1]'',
          ''[v0b1]trim=start=5.000:end=6.000,setpts=PTS-STARTPTS[vtrim2]'',
          ''[vtrim2]'' @ scale_expr 1080 1920 @ '',setsar=1[v2]'',
          ''[a0b1]atrim=start=5.000:end=6.000,asetpts=PTS-STARTPTS[a2]'',
          ''[v0][a0][v1][a1][v2][a2]concat=n=3:v=1:a=1[vcat][acat]'',
          ''[vcat]format=yuv420p[vout]'',
          ''[acat]loudnorm=I=-14:TP=-1.0:LRA=11[aout]'']
   \<and> length (filter is_concat_node (projr (build_filter_lines graph_test_segments 2 None 1080 1920
        (Some [(0, True), (1, True)]) ''bottom_right'' 0.8 True True))) = 1
   \<and> render_node (video_split_node 0 2) = ''[v0base]split=2[v0b0][v0b1]''
   \<and> render_node (video_trim_node (n_outputs (video_split_node 0 2) ! 0) 0 (graph_test_segments ! 0))
       = ''[v0b0]trim=start=1.000:end=2.000,setpts=PTS-STARTPTS[vtrim0]''
   \<and> render_node (video_trim_node (n_outputs (video_split_node 0 2) ! 1) 2 (graph_test_segments ! 2))
       = ''[v0b1]trim=start=5.000:end=6.000,setpts=PTS-STARTPTS[vtrim2]''"
proof -
  let ?fl = "audio_flags_of (Some [(0, True), (1, True)]) 2"
  have h1: "\<forall>seg \<in> set graph_test_segments. 0 \<le> src_index seg \<and> src_index seg < 2"
    by (simp add: graph_test_segments_def)
  have h2: "True \<or> (\<forall>seg \<in> set graph_test_segments. dict_get ?fl (src_index seg) True)"
    by simp
  from build_filter_complex_graph [OF h1 h2, of None 1080 1920 "''bottom_right''" "0.8" True]
  obtain nodes where
    lines: "build_filter_lines graph_test_segments 2 None 1080 1920
        (Some [(0, True), (1, True)]) ''bottom_right'' 0.8 True True = Inr nodes"
    and nodes: "nodes = concat (map (source_nodes graph_test_segments ?fl) [0..2 - 1])
         @ concat (map (\<lambda>i. segment_nodes ?fl (scale_expr 1080 1920)
              (usage_count graph_test_segments (src_index (graph_test_segments ! i))) i
              (graph_test_segments ! i) (occurrence graph_test_segments i))
            [0..<length graph_test_segments])
         @ [concat_node (length graph_test_segments)] @ closing_nodes None ''bottom_right'' 0.8 True"
    and one: "length (filter is_concat_node nodes) = 1"
    by blast
  have a: "src_index (graph_test_segments ! 0) = 0" "src_index (graph_test_segments ! 1) = 1"
    "src_index (graph_test_segments ! 2) = 0" "length graph_test_segments = 3"
    by (simp_all add: graph_test_segments_def)
  have b: "occurrence graph_test_segments 0 = 0" "occurrence graph_test_segments 1 = 0"
    "occurrence graph_test_segments 2 = 1"
    "usage_count graph_test_segments 0 = 2" "usage_count graph_test_segments 1 = 1"
    by (simp_all add: occurrence_def usage_count_def graph_test_segments_def)
  have u: "[0..2 - 1] = [0, 1 :: int]" "[0..<3] = [0, 1, 2 :: nat]"
    by code_simp+
  have u2: "[0..<2] = [0, 1 :: nat]"
    by code_simp
  have f: "dict_get ?fl 0 True" "dict_get ?fl 1 True"
    by (simp_all add: audio_flags_of_def dict_get_def)
  have n: "show_int 0 = ''0''" "show_int 1 = ''1''" "show_nat 0 = ''0''" "show_nat 1 = ''1''"
    "show_nat 2 = ''2''" "show_nat 3 = ''3''" "show_nat (Suc 0) = ''1''"
    by (simp_all add: show_int_def show_nat.simps digit_char_def)
  have t: "fmt3 1 = ''1.000''" "fmt3 2 = ''2.000''" "fmt3 3 = ''3.000''" "fmt3 4 = ''4.000''"
    "fmt3 5 = ''5.000''" "fmt3 6 = ''6.000''"
    by (simp_all add: fmt3_def round_half_even_def show_nat.simps digit_char_def)
  have s0: "map render_node (source_nodes graph_test_segments ?fl 0)
      = [''[0:v]setsar=1[v0base]'', ''[v0base]split=2[v0b0][v0b1]'',
         ''[0:a]aresample=48000,aformat=channel_layouts=stereo[a0base]'',
         ''[a0base]asplit=2[a0b0][a0b1]'']"
    unfolding source_nodes_def b
    by (simp add: f n render_node_def bracket_def video_base_node_def video_split_node_def
        audio_base_node_def audio_split_node_def u2)
  have s1: "map render_node (source_nodes graph_test_segments ?fl 1)
      = [''[1:v]setsar=1[v1base]'',
         ''[1:a]aresample=48000,aformat=channel_layouts=stereo[a1base]'']"
    unfolding source_nodes_def b
    by (simp add: f n render_node_def bracket_def video_base_node_def audio_base_node_def)
  have g: "graph_test_segments ! 0 = \<lparr> src_index = 0, p_in = 1, p_out = 2 \<rparr>"
    "graph_test_segments ! 1 = \<lparr> src_index = 1, p_in = 3, p_out = 4 \<rparr>"
    "graph_test_segments ! 2 = \<lparr> src_index = 0, p_in = 5, p_out = 6 \<rparr>"
    by (simp_all add: graph_test_segments_def)
  have l: "branch_labels ''v'' 0 2 = [''v0b0'', ''v0b1'']" "branch_labels ''a'' 0 2 = [''a0b0'', ''a0b1'']"
    "branch_labels ''v'' 1 1 = [''v1base'']" "branch_labels ''a'' 1 1 = [''a1base'']"
    "branch_labels ''v'' 1 (Suc 0) = [''v1base'']" "branch_labels ''a'' 1 (Suc 0) = [''a1base'']"
    by (simp_all add: branch_labels_def n u2)
  have g0: "map render_node (segment_nodes ?fl (scale_expr 1080 1920) 2 0 (graph_test_segments ! 0) 0)
      = [''[v0b0]trim=start=1.000:end=2.000,setpts=PTS-STARTPTS[vtrim0]'',
         ''[vtrim0]'' @ scale_expr 1080 1920 @ '',setsar=1[v0]'',
         ''[a0b0]atrim=start=1.000:end=2.000,asetpts=PTS-STARTPTS[a0]'']"
    unfolding segment_nodes_def g
    by (simp add: f l n t render_node_def bracket_def)
  have g1: "map render_node (segment_nodes ?fl (scale_expr 1080 1920) 1 1 (graph_test_segments ! 1) 0)
      = [''[v1base]trim=start=3.000:end=4.000,setpts=PTS-STARTPTS[vtrim1]'',
         ''[vtrim1]'' @ scale_expr 1080 1920 @ '',setsar=1[v1]'',
         ''[a1base]atrim=start=3.000:end=4.000,asetpts=PTS-STARTPTS[a1]'']"
    unfolding segment_nodes_def g
    by (simp add: f l n t render_node_def bracket_def)
  have g2: "map render_node (segment_nodes ?fl (scale_expr 1080 1920) 2 2 (graph_test_segments ! 2) 1)
      = [''[v0b1]trim=start=5.000:end=6.000,setpts=PTS-STARTPTS[vtrim2]'',
         ''[vtrim2]'' @ scale_expr 1080 1920 @ '',setsar=1[v2]'',
         ''[a0b1]atrim=start=5.000:end=6.000,asetpts=PTS-STARTPTS[a2]'']"
    unfolding segment_nodes_def g
    by (simp add: f l n t render_node_def bracket_def)
  have c: "render_node (concat_node 3) = ''[v0][a0][v1][a1][v2][a2]concat=n=3:v=1:a=1[vcat][acat]''"
    unfolding concat_node_def u
    by (simp add: n render_node_def bracket_def)
  have e: "map render_node (closing_nodes None ''bottom_right'' 0.8 True)
      = [''[vcat]format=yuv420p[vout]'', ''[acat]loudnorm=I=-14:TP=-1.0:LRA=11[aout]'']"
    by (simp add: closing_nodes_def render_node_def bracket_def)
  have r: "map render_node nodes
       = [''[0:v]setsar=1[v0base]'',
          ''[v0base]split=2[v0b0][v0b1]'',
          ''[0:a]aresample=48000,aformat=channel_layouts=stereo[a0base]'',
          ''[a0base]asplit=2[a0b0][a0b1]'',
          ''[1:v]setsar=1[v1base]'',
          ''[1:a]aresample=48000,aformat=channel_layouts=stereo[a1base]'',
          ''[v0b0]trim=start=1.000:end=2.000,setpts=PTS-STARTPTS[vtrim0]'',
          ''[vtrim0]'' @ scale_expr 1080 1920 @ '',setsar=1[v0]'',
          ''[a0b0]atrim=start=1.000:end=2.000,asetpts=PTS-STARTPTS[a0]'',
          ''[v1base]trim=start=3.000:end=4.000,setpts=PTS-STARTPTS[vtrim1]'',
          ''[vtrim1]'' @ scale_expr 1080 1920 @ '',setsar=1[v1]'',
          ''[a1base]atrim=start=3.000:end=4.000,asetpts=PTS-STARTPTS[a1]'',
          ''[v0b1]trim=start=5.000:end=6.000,setpts=PTS-STARTPTS[vtrim2]'',
          ''[vtrim2]'' @ scale_expr 1080 1920 @ '',setsar=1[v2]'',
          ''[a0b1]atrim=start=5.000:end=6.000,asetpts=PTS-STARTPTS[a2]'',
          ''[v0][a0][v1][a1][v2][a2]concat=n=3:v=1:a=1[vcat][acat]'',
          ''[vcat]format=yuv420p[vout]'',
          ''[acat]loudnorm=I=-14:TP=-1.0:LRA=11[aout]'']"
    unfolding nodes a(4) u
    by (simp only: list.map map_append concat.simps append_Nil2 append_Nil a b s0 s1 g0 g1 g2 c e
        append.simps)
  have p: "projr (build_filter_lines graph_test_segments 2 None 1080 1920
        (Some [(0, True), (1, True)]) ''bottom_right'' 0.8 True True) = nodes"
    unfolding lines by simp
  have v: "render_node (video_split_node 0 2) = ''[v0base]split=2[v0b0][v0b1]''"
    by (simp add: video_split_node_def render_node_def bracket_def n u2)
  have w0: "render_node (video_trim_node (n_outputs (video_split_node 0 2) ! 0) 0 (graph_test_segments ! 0))
       = ''[v0b0]trim=start=1.000:end=2.000,setpts=PTS-STARTPTS[vtrim0]''"
    unfolding g
    by (simp add: video_trim_node_def video_split_node_def render_node_def bracket_def n t
        u2)
  have w2: "render_node (video_trim_node (n_outputs (video_split_node 0 2) ! 1) 2 (graph_test_segments ! 2))
       = ''[v0b1]trim=start=5.000:end=6.000,setpts=PTS-STARTPTS[vtrim2]''"
    unfolding g
    by (simp add: video_trim_node_def video_split_node_def render_node_def bracket_def n t
        u2)
  show ?thesis
    unfolding p by (intro conjI a b(1,3,4) r one v w0 w2)
qed

section \<open>Commands\<close>

lemma map_result_ok:
  assumes "\<forall>x \<in> set xs. f x = Inr (g x)"
  shows "map_result f xs = Inr (map g xs)"
  using assms by (induction xs) simp_all

lemma set_ordered_distinct: "set (ordered_distinct xs) = set xs"
  by (simp add: ordered_distinct_def)

lemma input_map_lookup:
  assumes "x \<in> set xs"
  shows "\<exists>idx. dict_item (zip xs (map int [0..<length xs])) x = Inr idx
           \<and> 0 \<le> idx \<and> idx < int (length xs)"
proof -
  have "length xs = length (map int [0..<length xs])" by simp
  from map_of_zip_is_Some [OF this] assms
  obtain idx where m: "map_of (zip xs (map int [0..<length xs])) x = Some idx" by blast
  then have "(x, idx) \<in> set (zip xs (map int [0..<length xs]))" by (rule map_of_SomeD)
  then have "idx \<in> set (map int [0..<length xs])" by (rule set_zip_rightD)
  then have "0 \<le> idx \<and> idx < int (length xs)" by auto
  with m show ?thesis by (simp add: dict_item_def)
qed

lemma build_single_command_ok:
  "\<exists>cmd. build_single_command env br segs width height out = Inr cmd"
proof -
  define srcs where "srcs = ordered_distinct (map seg_src segs)"
  define im where "im = zip srcs (map int [0..<length srcs])"
  define ix where "ix = (\<lambda>x. projr (dict_item im x))"
  have ix: "dict_item im x = Inr (ix x) \<and> 0 \<le> ix x \<and> ix x < int (length srcs)"
    if "x \<in> set srcs" for x
    using input_map_lookup [OF that] unfolding im_def ix_def by auto
  have ap: "map_result (\<lambda>src. case dict_item im src of
                                Inl e \<Rightarrow> Inl e
                              | Inr idx \<Rightarrow> Inr (idx, has_audio_stream env src)) srcs
      = Inr (map (\<lambda>src. (ix src, has_audio_stream env src)) srcs)"
    by (rule map_result_ok) (simp add: ix)
  have mem: "seg_src seg \<in> set srcs" if "seg \<in> set segs" for seg
    using that unfolding srcs_def set_ordered_distinct by simp
  define payload where "payload = map (\<lambda>seg. \<lparr> src_index = ix (seg_src seg), p_in = seg_start seg,
                                                     p_out = seg_end seg \<rparr>) segs"
  have sp: "map_result (\<lambda>seg. case dict_item im (seg_src seg) of
                                    Inl e \<Rightarrow> Inl e
                                  | Inr idx \<Rightarrow> Inr \<lparr> src_index = idx, p_in = seg_start seg,
                                                     p_out = seg_end seg \<rparr>) segs
      = Inr payload"
    unfolding payload_def by (rule map_result_ok) (simp add: ix mem)
  have range: "\<forall>p \<in> set payload. 0 \<le> src_index p \<and> src_index p < int (length srcs)"
    unfolding payload_def using ix mem by auto
  define logo_index where "logo_index = fst (case logo_path br of
                    None \<Rightarrow> (None, [])
                  | Some p \<Rightarrow>
                      if p = [] then (None, [])
                      else if path_exists env p
                        then (Some (int (length srcs)), [''-i'', path_str env p])
                      else (None, []))"
  have "\<exists>pre post. build_filter_lines payload (int (length srcs)) logo_index width height
          (Some (map (\<lambda>src. (ix src, has_audio_stream env src)) srcs)) (logo_corner br)
          (safe_area br) True True
        = Inr (pre @ concat (map (\<lambda>j. segment_nodes (audio_flags_of
                   (Some (map (\<lambda>src. (ix src, has_audio_stream env src)) srcs)) (int (length srcs)))
                   (scale_expr width height) (usage_count payload (src_index (payload ! j))) j
                   (payload ! j) (occurrence payload j)) [0..<length payload])
               @ [concat_node (length payload)] @ post)
      \<and> (\<forall>n \<in> set pre. \<not> is_concat_node n) \<and> (\<forall>n \<in> set post. \<not> is_concat_node n)"
    by (rule build_filter_lines_ok [OF range]) simp
  then obtain nodes where "build_filter_lines payload (int (length srcs)) logo_index width height
          (Some (map (\<lambda>src. (ix src, has_audio_stream env src)) srcs)) (logo_corner br)
          (safe_area br) True True = Inr nodes"
    by blast
  then have fc: "build_filter_complex payload (int (length srcs)) logo_index width height
          (Some (map (\<lambda>src. (ix src, has_audio_stream env src)) srcs)) (logo_corner br)
          (safe_area br) True True
      = Inr (join '';'' (map render_node nodes), ''[vout]'', ''[aout]'')"
    by (simp add: build_filter_complex_def)
  show ?thesis
    unfolding build_single_command_def Let_def srcs_def [symmetric] im_def [symmetric] ap sp
      logo_index_def [symmetric]
    by (simp add: fc)
qed

lemma commands_loop_ok:
  "\<exists>cs. commands_loop env edl cfg stub ratios commands = Inr cs
     \<and> fst ` set cs = fst ` set commands \<union> {r \<in> set ratios. map_of ASPECT_DIMENSIONS r \<noteq> None}"
proof (induction ratios arbitrary: commands)
  case Nil
  then show ?case by simp
next
  case (Cons ratio rest)
  show ?case
  proof (cases "map_of ASPECT_DIMENSIONS ratio")
    case None
    then show ?thesis using Cons.IH [of commands] by auto
  next
    case (Some dims)
    obtain cmd where cmd: "build_single_command env (branding cfg) (segments edl) (fst dims)
        (snd dims) (derive_output_path env stub ratio) = Inr cmd"
      using build_single_command_ok by blast
    from Cons.IH [of "AList.update ratio cmd commands"]
    obtain cs where "commands_loop env edl cfg stub rest (AList.update ratio cmd commands) = Inr cs"
      "fst ` set cs = fst ` set (AList.update ratio cmd commands)
          \<union> {r \<in> set rest. map_of ASPECT_DIMENSIONS r \<noteq> None}"
      by blast
    then show ?thesis using Some cmd by (auto simp: AList.dom_update)
  qed
qed

text \<open>
  C8. \<open>build_commands\<close> raises for every EDL that has no segments. For an EDL that has
  segments it returns, without raising, a command for each deliverable ratio that is in
  the dimension table and for no other ratio: a ratio that is not in the table is skipped.
\<close>

theorem build_commands_errors:
  "(segments edl = [] \<longrightarrow>
      build_commands env edl cfg stub = Inl (ValueError ''EDL contains no segments to render''))
   \<and> (segments edl \<noteq> [] \<longrightarrow>
       (\<exists>commands. build_commands env edl cfg stub = Inr commands
          \<and> fst ` set commands
              = {r \<in> set (deliverables cfg). map_of ASPECT_DIMENSIONS r \<noteq> None}
          \<and> (\<forall>ratio. map_of ASPECT_DIMENSIONS ratio = None \<longrightarrow> map_of commands ratio = None)))"
proof (intro conjI impI)
  assume "segments edl = []"
  then show "build_commands env edl cfg stub = Inl (ValueError ''EDL contains no segments to render'')"
    by (simp add: build_commands_def)
next
  assume ne: "segments edl \<noteq> []"
  from commands_loop_ok [of env edl cfg stub "deliverables cfg" "[]"]
  obtain cs where cs: "commands_loop env edl cfg stub (deliverables cfg) [] = Inr cs"
    "fst ` set cs = {r \<in> set (deliverables cfg). map_of ASPECT_DIMENSIONS r \<noteq> None}"
    by auto
  have "map_of cs ratio = None" if "map_of ASPECT_DIMENSIONS ratio = None" for ratio
  proof -
    have "ratio \<notin> fst ` set cs" using that cs(2) by simp
    then show ?thesis by (simp add: map_of_eq_None_iff)
  qed
  then show "\<exists>commands. build_commands env edl cfg stub = Inr commands
          \<and> fst ` set commands
              = {r \<in> set (deliverables cfg). map_of ASPECT_DIMENSIONS r \<noteq> None}
          \<and> (\<forall>ratio. map_of ASPECT_DIMENSIONS ratio = None \<longrightarrow> map_of commands ratio = None)"
    using ne cs by (simp add: build_commands_def)
qed

theorem build_commands_errors_witness:
  "segments no_segments_edl = []
   \<and> build_commands test_environment no_segments_edl two_ratio_config output_stub
       = Inl (ValueError ''EDL contains no segments to render'')
   \<and> segments render_test_edl \<noteq> []
   \<and> deliverables two_ratio_config = [''9:16'', ''4:3'']
   \<and> map_of ASPECT_DIMENSIONS ''4:3'' = None
   \<and> map_of ASPECT_DIMENSIONS ''9:16'' = Some (1080, 1920)
   \<and> \<not> isl (build_commands test_environment render_test_edl two_ratio_config output_stub)
   \<and> ''9:16'' \<in> fst ` set (projr (build_commands test_environment render_test_edl
        two_ratio_config output_stub))
   \<and> map_of (projr (build_commands test_environment render_test_edl two_ratio_config
        output_stub)) ''4:3'' = None"
proof -
  note t = build_commands_errors [of no_segments_edl test_environment two_ratio_config output_stub]
  note u = build_commands_errors [of render_test_edl test_environment two_ratio_config output_stub]
  have e: "segments no_segments_edl = []" by (simp add: no_segments_edl_def)
  have ne: "segments render_test_edl \<noteq> []" by (simp add: render_test_edl_def)
  have dl: "deliverables two_ratio_config = [''9:16'', ''4:3'']"
    by (simp add: two_ratio_config_def)
  have a: "map_of ASPECT_DIMENSIONS ''4:3'' = None"
    "map_of ASPECT_DIMENSIONS ''9:16'' = Some (1080, 1920)"
    by (simp_all add: ASPECT_DIMENSIONS_def)
  have t1: "build_commands test_environment no_segments_edl two_ratio_config output_stub
       = Inl (ValueError ''EDL contains no segments to render'')"
    using t e by (rule_tac mp [OF conjunct1])
  have "\<exists>commands. build_commands test_environment render_test_edl two_ratio_config output_stub
            = Inr commands
          \<and> fst ` set commands
              = {r \<in> set (deliverables two_ratio_config). map_of ASPECT_DIMENSIONS r \<noteq> None}
          \<and> (\<forall>ratio. map_of ASPECT_DIMENSIONS ratio = None \<longrightarrow> map_of commands ratio = None)"
    using u ne by (rule_tac mp [OF conjunct2])
  then obtain commands where
    c1: "build_commands test_environment render_test_edl two_ratio_config output_stub = Inr commands"
    and c2: "fst ` set commands
              = {r \<in> set (deliverables two_ratio_config). map_of ASPECT_DIMENSIONS r \<noteq> None}"
    and c3: "\<forall>ratio. map_of ASPECT_DIMENSIONS ratio = None \<longrightarrow> map_of commands ratio = None"
    by blast
  have k: "''9:16'' \<in> fst ` set commands"
    unfolding c2 dl using a(2) by simp
  have n: "map_of commands ''4:3'' = None" using c3 a(1) by blast
  show ?thesis
    unfolding c1 using e t1 ne dl a k n by simp
qed

end
